theory Spec2Isabelle
  imports Main
begin

section \<open>Strings, errors and the random source\<close>

text \<open>
  A string of the runtime is a sequence of UTF-16 code units, so that \<open>length\<close> is the
  \<^verbatim>\<open>.length\<close> of the source and a CJK ideograph is one element. \<open>js\<close> writes a
  Basic Latin literal as such a sequence.
\<close>

type_synonym jsstring = "nat list"

definition js :: "string \<Rightarrow> jsstring" where
  "js s = map of_char s"

text \<open>The separator \<^verbatim>\<open>/\<close>, the progressive suffix U+7740 and the resultative suffix U+5F97.\<close>

definition slash :: nat where
  "slash = 47"

definition zhe :: jsstring where
  "zhe = [30528]"

definition de :: jsstring where
  "de = [24471]"

text \<open>
  The white space and line terminators that \<^verbatim>\<open>String.prototype.trim\<close> removes:
  U+0009 to U+000D, U+0020, U+00A0, U+1680, U+2000 to U+200A, U+2028, U+2029, U+202F,
  U+205F, U+3000 and U+FEFF.
\<close>

definition isWhiteSpace :: "nat \<Rightarrow> bool" where
  "isWhiteSpace c =
     ((9 \<le> c \<and> c \<le> 13) \<or> c = 32 \<or> c = 160 \<or> c = 5760 \<or> (8192 \<le> c \<and> c \<le> 8202)
      \<or> c = 8232 \<or> c = 8233 \<or> c = 8239 \<or> c = 8287 \<or> c = 12288 \<or> c = 65279)"

definition trim :: "jsstring \<Rightarrow> jsstring" where
  "trim s = rev (dropWhile isWhiteSpace (rev (dropWhile isWhiteSpace s)))"

text \<open>
  Case conversion of the slot codes of the templates, code unit by code unit. The slot
  codes and tags of the program are Basic Latin letters, which is the block converted here;
  every other code unit (the CJK text of the tables among them) is left as it is. On a
  slot code with a cased letter outside Basic Latin the runtime converts more than these
  functions do.
\<close>

definition toLowerUnit :: "nat \<Rightarrow> nat" where
  "toLowerUnit c = (if 65 \<le> c \<and> c \<le> 90 then c + 32 else c)"

definition toUpperUnit :: "nat \<Rightarrow> nat" where
  "toUpperUnit c = (if 97 \<le> c \<and> c \<le> 122 then c - 32 else c)"

definition toLowerCase :: "jsstring \<Rightarrow> jsstring" where
  "toLowerCase s = map toLowerUnit s"

definition toUpperCase :: "jsstring \<Rightarrow> jsstring" where
  "toUpperCase s = map toUpperUnit s"

text \<open>\<^verbatim>\<open>xs[i]\<close> of the runtime: \<open>None\<close> is \<^verbatim>\<open>undefined\<close>, read out of range.\<close>

definition jsIndex :: "'a list \<Rightarrow> nat \<Rightarrow> 'a option" where
  "jsIndex xs i = (if i < length xs then Some (xs ! i) else None)"

text \<open>\<^verbatim>\<open>s.indexOf(c)\<close>, with \<open>None\<close> for \<open>-1\<close>.\<close>

definition indexOf :: "nat \<Rightarrow> jsstring \<Rightarrow> nat option" where
  "indexOf c s = (if c \<in> set s then Some (length (takeWhile (\<lambda>x. x \<noteq> c) s)) else None)"

text \<open>
  Every \<^verbatim>\<open>throw\<close> of the source is a value: the \<^verbatim>\<open>Error\<close>s of the word selector by
  message, and the \<^verbatim>\<open>TypeError\<close> of the runtime for a property read on \<^verbatim>\<open>undefined\<close>.
\<close>

datatype error =
    TypeError
  | EmptyWordList
  | NoLocationNoun
  | NoPersonNoun
  | NoSimpleVerb
  | NoProgressiveVerb
  | NoResultativeVerb
  | UnsupportedPartOfSpeech

text \<open>
  The random source is a sequence \<open>rs\<close> of naturals read at a counter \<open>k\<close>, which every
  draw advances by one. \<^verbatim>\<open>Math.floor(Math.random() * n)\<close> is an index below \<open>n\<close>, and
  \<open>0\<close> when \<open>n\<close> is \<open>0\<close>.
\<close>

type_synonym rng = "nat \<Rightarrow> nat"

definition randomIndex :: "rng \<Rightarrow> nat \<Rightarrow> nat \<Rightarrow> nat" where
  "randomIndex rs k n = (if n = 0 then 0 else rs k mod n)"

fun mapResult :: "('a \<Rightarrow> 'b) \<Rightarrow> (error + 'a) \<times> nat \<Rightarrow> (error + 'b) \<times> nat" where
  "mapResult f (Inl e, k) = (Inl e, k)"
| "mapResult f (Inr x, k) = (Inr (f x), k)"

section \<open>Data model\<close>

datatype PoeticStyle = Quiet | Bold

record WordRecord =
  word :: jsstring
  vowel :: jsstring
  property :: jsstring

record SentenceStructure =
  internalNeed :: int
  limitedRhyme :: jsstring
  compoundStructureCount :: int
  punctuation :: jsstring
  elements :: "jsstring list"

record SpecialWord =
  content :: jsstring
  swType :: int

text \<open>The working structure has the fields of the same names, here with the prefix \<open>w\<close>.\<close>

record WorkingStructure =
  wCompoundStructureCount :: int
  wPunctuation :: jsstring
  wElements :: "jsstring list"

record PoetryGenerationOptions =
  style :: PoeticStyle
  paragraphCount :: nat
  linesPerParagraph :: nat
  useRhyme :: bool
  rhymeScheme :: "jsstring option"

record WordSelectionContext =
  partOfSpeech :: jsstring
  needsRhyme :: bool
  ctxRhymeScheme :: "jsstring option"

text \<open>The tables of the data service, as loaded.\<close>

record DataService =
  nouns :: "WordRecord list"
  adjectives :: "WordRecord list"
  intransitiveVerbs :: "WordRecord list"
  transitiveVerbs :: "WordRecord list"
  interjections :: "WordRecord list"
  sentenceStructures :: "SentenceStructure list"
  specialWords :: "SpecialWord list"

text \<open>An optional rhyme scheme is truthy when it is given and not the empty string.\<close>

definition truthy :: "jsstring option \<Rightarrow> bool" where
  "truthy r = (case r of None \<Rightarrow> False | Some s \<Rightarrow> s \<noteq> [])"

section \<open>Data service and word selector\<close>

definition getWordsByPartOfSpeech :: "DataService \<Rightarrow> jsstring \<Rightarrow> error + WordRecord list" where
  "getWordsByPartOfSpeech ds pos =
     (if pos = js ''MM'' \<or> pos = js ''MC'' \<or> pos = js ''MR'' then Inr (nouns ds)
      else if pos = js ''DD'' \<or> pos = js ''DI'' \<or> pos = js ''DV'' \<or> pos = js ''DO''
        then Inr (intransitiveVerbs ds)
      else if pos = js ''DJ'' then Inr (transitiveVerbs ds)
      else if pos = js ''XA'' then Inr (adjectives ds)
      else if pos = js ''TT'' then Inr (interjections ds)
      else if pos = js ''SS''
        then Inr (map (\<lambda>sw. \<lparr>word = content sw, vowel = [], property = []\<rparr>) (specialWords ds))
      else Inl UnsupportedPartOfSpeech)"

definition getRandomWord :: "WordRecord list \<Rightarrow> rng \<Rightarrow> nat \<Rightarrow> (error + WordRecord) \<times> nat" where
  "getRandomWord words rs k =
     (if length words = 0 then (Inl EmptyWordList, k)
      else (Inr (words ! randomIndex rs k (length words)), Suc k))"

definition getRandomRhymingWord ::
  "WordRecord list \<Rightarrow> jsstring option \<Rightarrow> rng \<Rightarrow> nat \<Rightarrow> (error + WordRecord) \<times> nat" where
  "getRandomRhymingWord words scheme rs k =
     getRandomWord (filter (\<lambda>w. Some (vowel w) = scheme) words) rs k"

definition selectBasicWord ::
  "WordRecord list \<Rightarrow> bool \<Rightarrow> jsstring option \<Rightarrow> rng \<Rightarrow> nat \<Rightarrow> (error + jsstring) \<times> nat" where
  "selectBasicWord words nr scheme rs k =
     (let rhymingWords = filter (\<lambda>w. Some (vowel w) = scheme) words in
      if nr \<and> truthy scheme \<and> length rhymingWords > 0
        then mapResult word (getRandomWord rhymingWords rs k)
      else mapResult word (getRandomWord words rs k))"

text \<open>The plain form of a verb: the text without its first separator.\<close>

definition joinVerb :: "jsstring \<Rightarrow> jsstring" where
  "joinVerb wordText =
     (case indexOf slash wordText of
        Some i \<Rightarrow> take i wordText @ drop (i + 1) wordText
      | None \<Rightarrow> wordText)"

definition selectIntransitiveVerb ::
  "WordRecord list \<Rightarrow> bool \<Rightarrow> jsstring option \<Rightarrow> rng \<Rightarrow> nat \<Rightarrow> (error + jsstring) \<times> nat" where
  "selectIntransitiveVerb words nr scheme rs k =
     mapResult (\<lambda>w. joinVerb (word w))
       (if nr \<and> truthy scheme then getRandomRhymingWord words scheme rs k
        else getRandomWord words rs k)"

definition selectLocationNoun ::
  "WordRecord list \<Rightarrow> bool \<Rightarrow> jsstring option \<Rightarrow> rng \<Rightarrow> nat \<Rightarrow> (error + jsstring) \<times> nat" where
  "selectLocationNoun words nr scheme rs k =
     (let locationWords = filter (\<lambda>w. property w = [26102, 38388] \<or> property w = [22320, 28857]
                                      \<or> property w = [22320, 21517]) words;
          rhymingLocationWords = filter (\<lambda>w. Some (vowel w) = scheme) locationWords in
      if nr \<and> truthy scheme \<and> length rhymingLocationWords > 0
        then mapResult word (getRandomWord rhymingLocationWords rs k)
      else if length locationWords = 0 then (Inl NoLocationNoun, k)
      else mapResult word (getRandomWord locationWords rs k))"

definition selectPersonNoun ::
  "WordRecord list \<Rightarrow> bool \<Rightarrow> jsstring option \<Rightarrow> rng \<Rightarrow> nat \<Rightarrow> (error + jsstring) \<times> nat" where
  "selectPersonNoun words nr scheme rs k =
     (let personWords = filter (\<lambda>w. property w = [20154, 29289] \<or> property w = [20154, 21517]) words;
          rhymingPersonWords = filter (\<lambda>w. Some (vowel w) = scheme) personWords in
      if nr \<and> truthy scheme \<and> length rhymingPersonWords > 0
        then mapResult word (getRandomWord rhymingPersonWords rs k)
      else if length personWords = 0 then (Inl NoPersonNoun, k)
      else mapResult word (getRandomWord personWords rs k))"

definition selectSimpleVerb :: "WordRecord list \<Rightarrow> rng \<Rightarrow> nat \<Rightarrow> (error + jsstring) \<times> nat" where
  "selectSimpleVerb words rs k =
     (let simpleVerbs = filter (\<lambda>w. slash \<notin> set (word w)) words in
      if length simpleVerbs = 0 then (Inl NoSimpleVerb, k)
      else mapResult word (getRandomWord simpleVerbs rs k))"

definition progressiveForm :: "jsstring \<Rightarrow> jsstring" where
  "progressiveForm wordText =
     (case indexOf slash wordText of
        Some i \<Rightarrow> take i wordText @ zhe @ drop (i + 1) wordText
      | None \<Rightarrow> wordText @ zhe)"

definition selectProgressiveVerb ::
  "WordRecord list \<Rightarrow> bool \<Rightarrow> jsstring option \<Rightarrow> rng \<Rightarrow> nat \<Rightarrow> (error + jsstring) \<times> nat" where
  "selectProgressiveVerb words nr scheme rs k =
     (let splittable = filter (\<lambda>w. slash \<in> set (word w)) words;
          rhymingWords = filter (\<lambda>w. Some (vowel w) = scheme) splittable;
          candidateWords = (if nr \<and> truthy scheme \<and> length rhymingWords > 0
                            then rhymingWords else splittable) in
      if length candidateWords = 0 then (Inl NoProgressiveVerb, k)
      else mapResult (\<lambda>w. progressiveForm (word w)) (getRandomWord candidateWords rs k))"

definition resultativeForm :: "jsstring \<Rightarrow> jsstring" where
  "resultativeForm wordText =
     (case indexOf slash wordText of
        Some i \<Rightarrow> trim (drop (i + 1) wordText) @ take i wordText @ de
      | None \<Rightarrow> wordText @ de)"

definition selectResultativeVerb :: "WordRecord list \<Rightarrow> rng \<Rightarrow> nat \<Rightarrow> (error + jsstring) \<times> nat" where
  "selectResultativeVerb words rs k =
     (let candidateWords = filter (\<lambda>w. slash \<in> set (word w)) words in
      if length candidateWords = 0 then (Inl NoResultativeVerb, k)
      else mapResult (\<lambda>w. resultativeForm (word w)) (getRandomWord candidateWords rs k))"

definition selectSpecialWord :: "DataService \<Rightarrow> rng \<Rightarrow> nat \<Rightarrow> (error + jsstring) \<times> nat" where
  "selectSpecialWord ds rs k =
     (if length (specialWords ds) = 0 then (Inr [], k)
      else (Inr (content (specialWords ds ! randomIndex rs k (length (specialWords ds)))), Suc k))"

definition selectWord ::
  "DataService \<Rightarrow> WordSelectionContext \<Rightarrow> rng \<Rightarrow> nat \<Rightarrow> (error + jsstring) \<times> nat" where
  "selectWord ds ctx rs k =
     (let pos = partOfSpeech ctx; nr = needsRhyme ctx; scheme = ctxRhymeScheme ctx in
      case getWordsByPartOfSpeech ds pos of
        Inl e \<Rightarrow> (Inl e, k)
      | Inr words \<Rightarrow>
          if pos = js ''MM'' \<or> pos = js ''TT'' \<or> pos = js ''DJ'' \<or> pos = js ''XA''
            then selectBasicWord words nr scheme rs k
          else if pos = js ''DD'' then selectIntransitiveVerb words nr scheme rs k
          else if pos = js ''MC'' then selectLocationNoun words nr scheme rs k
          else if pos = js ''MR'' then selectPersonNoun words nr scheme rs k
          else if pos = js ''DI'' then selectSimpleVerb words rs k
          else if pos = js ''DV'' then selectProgressiveVerb words nr scheme rs k
          else if pos = js ''DO'' then selectResultativeVerb words rs k
          else if pos = js ''SS'' then selectSpecialWord ds rs k
          else (Inl UnsupportedPartOfSpeech, k))"

text \<open>
  \<open>normalizeRhymeScheme\<close> converts the text of its caller, which may be any string, with
  \<^verbatim>\<open>String.prototype.toLowerCase\<close>. That conversion belongs to the runtime and covers
  all of Unicode; it is the parameter \<open>lower\<close>.
\<close>

definition normalizeRhymeScheme :: "(jsstring \<Rightarrow> jsstring) \<Rightarrow> jsstring \<Rightarrow> jsstring" where
  "normalizeRhymeScheme lower rhyme =
     (let normalizedRhyme = trim (lower rhyme) in
      if normalizedRhyme = js ''o'' \<or> normalizedRhyme = js ''uo'' then js ''e''
      else if normalizedRhyme = js ''ui'' then js ''ei''
      else if normalizedRhyme = js ''in'' \<or> normalizedRhyme = js ''un''
              \<or> normalizedRhyme = js ''vn'' then js ''en''
      else if normalizedRhyme = js ''ing'' then js ''eng''
      else if normalizedRhyme = js ''ve'' then js ''ie''
      else if normalizedRhyme = js ''iu'' then js ''ou''
      else if normalizedRhyme = js ''z'' then js ''r''
      else normalizedRhyme)"

text \<open>
  What is used of the runtime's conversion to lower case: converting twice is converting
  once; it neither removes nor produces white space at the ends of a string, so that it
  commutes with \<open>trim\<close>; and on a string of Basic Latin code units it converts the letters
  \<open>A\<close> to \<open>Z\<close> and nothing else.
\<close>

definition lowerCaseConversion :: "(jsstring \<Rightarrow> jsstring) \<Rightarrow> bool" where
  "lowerCaseConversion lower =
     ((\<forall>x. lower (lower x) = lower x)
      \<and> (\<forall>x. lower (trim x) = trim (lower x))
      \<and> (\<forall>x. list_all (\<lambda>c. c < 128) x \<longrightarrow> lower x = map toLowerUnit x))"

section \<open>Structure generator\<close>

definition shouldLineRhyme :: "nat \<Rightarrow> nat \<Rightarrow> bool" where
  "shouldLineRhyme lineIndex totalLines =
     (if totalLines mod 2 = 0 then lineIndex = 1 \<or> lineIndex mod 2 = 0
      else (lineIndex + 1) mod 2 = 0)"

text \<open>The two rejection rules of template selection: the tenth slot, and the rhyme.\<close>

definition isQuiet :: "SentenceStructure \<Rightarrow> bool" where
  "isQuiet s = (jsIndex (elements s) 9 = Some [])"

definition rhymeRejected :: "bool \<Rightarrow> jsstring option \<Rightarrow> SentenceStructure \<Rightarrow> bool" where
  "rhymeRejected nr scheme s =
     (nr \<and> truthy scheme \<and> compoundStructureCount s = 0
      \<and> Some (limitedRhyme s) \<noteq> scheme \<and> limitedRhyme s \<noteq> js ''E'')"

text \<open>
  The selection loops. A template read beyond the table is \<^verbatim>\<open>undefined\<close> (\<open>None\<close>);
  reading a field of it is a \<^verbatim>\<open>TypeError\<close>.
\<close>

function selectQuietLoop ::
  "SentenceStructure list \<Rightarrow> bool \<Rightarrow> jsstring option \<Rightarrow> rng \<Rightarrow> nat \<Rightarrow> nat
     \<Rightarrow> (error + SentenceStructure option) \<times> nat" where
  "selectQuietLoop structures nr scheme rs attempts k =
     (if attempts < 100 then
        (case jsIndex structures (randomIndex rs k (length structures)) of
           None \<Rightarrow> (Inl TypeError, Suc k)
         | Some s \<Rightarrow>
             if \<not> isQuiet s then selectQuietLoop structures nr scheme rs (attempts + 1) (Suc k)
             else if rhymeRejected nr scheme s
               then selectQuietLoop structures nr scheme rs (attempts + 1) (Suc k)
             else (Inr (Some s), Suc k))
      else (Inr (jsIndex structures 0), k))"
  by pat_completeness auto
termination
  by (relation "measure (\<lambda>(structures, nr, scheme, rs, attempts, k). 100 - attempts)") auto

function selectBoldLoop ::
  "SentenceStructure list \<Rightarrow> bool \<Rightarrow> jsstring option \<Rightarrow> rng \<Rightarrow> nat \<Rightarrow> nat
     \<Rightarrow> (error + SentenceStructure option) \<times> nat" where
  "selectBoldLoop structures nr scheme rs attempts k =
     (if attempts < 100 then
        (case jsIndex structures (randomIndex rs k (length structures)) of
           None \<Rightarrow> if nr \<and> truthy scheme then (Inl TypeError, Suc k) else (Inr None, Suc k)
         | Some s \<Rightarrow>
             if rhymeRejected nr scheme s
               then selectBoldLoop structures nr scheme rs (attempts + 1) (Suc k)
             else (Inr (Some s), Suc k))
      else (Inr (jsIndex structures 0), k))"
  by pat_completeness auto
termination
  by (relation "measure (\<lambda>(structures, nr, scheme, rs, attempts, k). 100 - attempts)") auto

declare selectQuietLoop.simps [simp del]
declare selectBoldLoop.simps [simp del]

definition selectQuietStructure ::
  "SentenceStructure list \<Rightarrow> bool \<Rightarrow> jsstring option \<Rightarrow> rng \<Rightarrow> nat
     \<Rightarrow> (error + SentenceStructure option) \<times> nat" where
  "selectQuietStructure structures nr scheme rs k = selectQuietLoop structures nr scheme rs 0 k"

definition selectBoldStructure ::
  "SentenceStructure list \<Rightarrow> bool \<Rightarrow> jsstring option \<Rightarrow> rng \<Rightarrow> nat
     \<Rightarrow> (error + SentenceStructure option) \<times> nat" where
  "selectBoldStructure structures nr scheme rs k = selectBoldLoop structures nr scheme rs 0 k"

text \<open>\<^verbatim>\<open>elements[i] || ''\<close>.\<close>

definition elementAt :: "jsstring list \<Rightarrow> nat \<Rightarrow> jsstring" where
  "elementAt xs i = (case jsIndex xs i of None \<Rightarrow> [] | Some e \<Rightarrow> e)"

text \<open>What one slot code of the template pushes onto the processed elements.\<close>

definition expandElement :: "jsstring \<Rightarrow> jsstring \<Rightarrow> jsstring list" where
  "expandElement lr element =
     (if element = js ''Dd'' \<and> lr = js ''E'' then [js ''DV'', zhe, js ''DO'']
      else if length element = 2 \<and> [element ! 0] = toLowerCase [element ! 0]
        then [toUpperCase element]
      else [element])"

function processLoop :: "SentenceStructure \<Rightarrow> nat \<Rightarrow> jsstring list \<Rightarrow> jsstring list" where
  "processLoop st i processedElements =
     (if i < 27 then
        (if elementAt (elements st) i = [] then processedElements
         else processLoop st (i + 1)
                (processedElements @ expandElement (limitedRhyme st) (elementAt (elements st) i)))
      else processedElements)"
  by pat_completeness auto
termination
  by (relation "measure (\<lambda>(st, i, processedElements). 27 - i)") auto

declare processLoop.simps [simp del]

text \<open>The padding loop pushes empty strings while there are fewer than 30 elements.\<close>

definition padTo30 :: "jsstring list \<Rightarrow> jsstring list" where
  "padTo30 processedElements = processedElements @ replicate (30 - length processedElements) []"

definition processStructureElements ::
  "SentenceStructure option \<Rightarrow> bool \<Rightarrow> jsstring option \<Rightarrow> error + WorkingStructure" where
  "processStructureElements structure nr scheme =
     (case structure of
        None \<Rightarrow> Inl TypeError
      | Some st \<Rightarrow>
          Inr \<lparr>wCompoundStructureCount = compoundStructureCount st,
               wPunctuation = punctuation st,
               wElements = padTo30 (processLoop st 0 [])\<rparr>)"

fun selectTemplates ::
  "SentenceStructure list \<Rightarrow> nat \<Rightarrow> PoeticStyle \<Rightarrow> jsstring option \<Rightarrow> nat list \<Rightarrow> rng \<Rightarrow> nat
     \<Rightarrow> (error + SentenceStructure option list) \<times> nat" where
  "selectTemplates structures totalLines sty scheme [] rs k = (Inr [], k)"
| "selectTemplates structures totalLines sty scheme (lineIndex # rest) rs k =
     (case (if sty = Quiet
            then selectQuietStructure structures (shouldLineRhyme lineIndex totalLines) scheme rs k
            else selectBoldStructure structures (shouldLineRhyme lineIndex totalLines) scheme rs k) of
        (Inl e, k') \<Rightarrow> (Inl e, k')
      | (Inr selectedStructure, k') \<Rightarrow>
          mapResult (\<lambda>tempStructures. selectedStructure # tempStructures)
            (selectTemplates structures totalLines sty scheme rest rs k'))"

text \<open>A sequence of steps stops at the first one that throws.\<close>

fun collect :: "(error + 'a) list \<Rightarrow> error + 'a list" where
  "collect [] = Inr []"
| "collect (Inl e # rest) = Inl e"
| "collect (Inr x # rest) = (case collect rest of Inl e \<Rightarrow> Inl e | Inr xs \<Rightarrow> Inr (x # xs))"

definition createStructure ::
  "DataService \<Rightarrow> nat \<Rightarrow> nat \<Rightarrow> PoeticStyle \<Rightarrow> jsstring option \<Rightarrow> rng \<Rightarrow> nat
     \<Rightarrow> (error + WorkingStructure list) \<times> nat" where
  "createStructure ds pc lpp sty scheme rs k =
     (case selectTemplates (sentenceStructures ds) lpp sty scheme [1..<lpp + 1] rs k of
        (Inl e, k') \<Rightarrow> (Inl e, k')
      | (Inr tempStructures, k') \<Rightarrow>
          (collect (concat (map (\<lambda>paragraphIndex.
              map (\<lambda>lineIndex.
                processStructureElements (tempStructures ! (lineIndex - 1))
                  (shouldLineRhyme paragraphIndex pc) scheme) [1..<lpp + 1]) [1..<pc + 1])),
           k'))"

section \<open>Poetry engine\<close>

definition partOfSpeechTags :: "jsstring list" where
  "partOfSpeechTags = map js [''MM'', ''MC'', ''MR'', ''DD'', ''DI'', ''DV'', ''DO'', ''DJ'',
     ''XA'', ''TT'', ''SS'']"

definition legacyMappings :: "(jsstring \<times> jsstring) list" where
  "legacyMappings = [(js ''XX'', js ''XA''), (js ''Mm'', js ''MM''), (js ''Mr'', js ''MR''),
     (js ''Mc'', js ''MC''), (js ''DB'', js ''DD''), (js ''Dd'', js ''DD''),
     (js ''Dv'', js ''DV''), (js ''Do'', js ''DO'')]"

text \<open>
  \<^verbatim>\<open>element in legacyMappings\<close> also holds for the property names that an object literal
  inherits from \<^verbatim>\<open>Object.prototype\<close>; what it then reads is not a string.
\<close>

definition inheritedKeys :: "jsstring list" where
  "inheritedKeys = map js [''constructor'', ''hasOwnProperty'', ''isPrototypeOf'',
     ''propertyIsEnumerable'', ''toLocaleString'', ''toString'', ''valueOf'', ''__proto__'',
     ''__defineGetter__'', ''__defineSetter__'', ''__lookupGetter__'', ''__lookupSetter__'']"

definition isPartOfSpeech :: "jsstring \<Rightarrow> bool" where
  "isPartOfSpeech element =
     (element \<in> set partOfSpeechTags \<or> toUpperCase element \<in> set partOfSpeechTags
      \<or> map_of legacyMappings element \<noteq> None \<or> element \<in> set inheritedKeys)"

text \<open>\<open>None\<close> is an inherited member of the mapping object, which is no tag.\<close>

definition normalizePartOfSpeech :: "jsstring \<Rightarrow> jsstring option" where
  "normalizePartOfSpeech element =
     (case map_of legacyMappings element of
        Some tag \<Rightarrow> Some tag
      | None \<Rightarrow>
          if element \<in> set inheritedKeys then None
          else if toUpperCase element \<in> set partOfSpeechTags then Some (toUpperCase element)
          else if element \<in> set partOfSpeechTags then Some element
          else Some (js ''MM''))"

text \<open>A value that is no string reaches the default branch of the selector's dispatch.\<close>

definition selectWordForElement ::
  "DataService \<Rightarrow> jsstring option \<Rightarrow> PoetryGenerationOptions \<Rightarrow> rng \<Rightarrow> nat
     \<Rightarrow> (error + jsstring) \<times> nat" where
  "selectWordForElement ds pos opts rs k =
     (case pos of
        None \<Rightarrow> (Inl UnsupportedPartOfSpeech, k)
      | Some p \<Rightarrow>
          selectWord ds \<lparr>partOfSpeech = p, needsRhyme = useRhyme opts,
                         ctxRhymeScheme = rhymeScheme opts\<rparr> rs k)"

definition nextIndex :: "jsstring option \<Rightarrow> nat \<Rightarrow> nat" where
  "nextIndex pos elementIndex =
     (if pos = Some (js ''DV'') \<or> pos = Some (js ''DO'') then elementIndex + 2 + 1
      else elementIndex + 1)"

function generateLineLoop ::
  "DataService \<Rightarrow> WorkingStructure \<Rightarrow> PoetryGenerationOptions \<Rightarrow> rng \<Rightarrow> nat \<Rightarrow> jsstring \<Rightarrow> nat
     \<Rightarrow> (error + jsstring) \<times> nat" where
  "generateLineLoop ds structure opts rs elementIndex line k =
     (if elementIndex < 27 then
        (if elementAt (wElements structure) elementIndex = [] then (Inr line, k)
         else if isPartOfSpeech (elementAt (wElements structure) elementIndex) then
           (case selectWordForElement ds
                   (normalizePartOfSpeech (elementAt (wElements structure) elementIndex)) opts rs k of
              (Inl e, k') \<Rightarrow> (Inl e, k')
            | (Inr w, k') \<Rightarrow>
                generateLineLoop ds structure opts rs
                  (nextIndex (normalizePartOfSpeech (elementAt (wElements structure) elementIndex))
                     elementIndex)
                  (line @ w) k')
         else generateLineLoop ds structure opts rs (elementIndex + 1)
                (line @ elementAt (wElements structure) elementIndex) k)
      else (Inr line, k))"
  by pat_completeness auto
termination
  by (relation "measure (\<lambda>(ds, structure, opts, rs, elementIndex, line, k). 27 - elementIndex)")
     (auto simp: nextIndex_def)

declare generateLineLoop.simps [simp del]

definition generateLine ::
  "DataService \<Rightarrow> WorkingStructure \<Rightarrow> PoetryGenerationOptions \<Rightarrow> rng \<Rightarrow> nat
     \<Rightarrow> (error + jsstring) \<times> nat" where
  "generateLine ds structure opts rs k =
     mapResult (\<lambda>line. trim (line @ wPunctuation structure))
       (generateLineLoop ds structure opts rs 0 [] k)"

fun generateLines ::
  "DataService \<Rightarrow> PoetryGenerationOptions \<Rightarrow> rng \<Rightarrow> WorkingStructure list \<Rightarrow> nat
     \<Rightarrow> (error + jsstring list) \<times> nat" where
  "generateLines ds opts rs [] k = (Inr [], k)"
| "generateLines ds opts rs (structure # rest) k =
     (case generateLine ds structure opts rs k of
        (Inl e, k') \<Rightarrow> (Inl e, k')
      | (Inr line, k') \<Rightarrow>
          mapResult (\<lambda>lines. line # lines) (generateLines ds opts rs rest k'))"

text \<open>The \<open>lines\<close> of the generated poem.\<close>

definition generatePoetry ::
  "DataService \<Rightarrow> PoetryGenerationOptions \<Rightarrow> rng \<Rightarrow> nat \<Rightarrow> (error + jsstring list) \<times> nat" where
  "generatePoetry ds opts rs k =
     (case createStructure ds (paragraphCount opts) (linesPerParagraph opts) (style opts)
             (rhymeScheme opts) rs k of
        (Inl e, k') \<Rightarrow> (Inl e, k')
      | (Inr structures, k') \<Rightarrow> generateLines ds opts rs structures k')"

text \<open>\<^verbatim>\<open>s.endsWith(p)\<close>, in which the properties of a rendered line are stated.\<close>

definition endsWith :: "jsstring \<Rightarrow> jsstring \<Rightarrow> bool" where
  "endsWith s p = (length p \<le> length s \<and> drop (length s - length p) s = p)"

section \<open>Example tables\<close>

text \<open>
  A small lexicon and templates on which the theorems below are run: the nouns U+82B1
  (vowel \<open>a\<close>) and U+6CB3 (vowel \<open>e\<close>), the splittable verb U+8DF3 \<open>/\<close> U+821E (vowel
  \<open>u\<close>) and the plain verb U+8D70 (vowel \<open>ou\<close>), a template of a noun, the literal
  U+7684 and a plain verb closed by U+3002, templates with compound slots, a template of
  a person noun, and a template without content.
\<close>

definition exNouns :: "WordRecord list" where
  "exNouns = [\<lparr>word = [33457], vowel = js ''a'', property = []\<rparr>,
              \<lparr>word = [27827], vowel = js ''e'', property = []\<rparr>]"

definition exVerbs :: "WordRecord list" where
  "exVerbs = [\<lparr>word = [36339, 47, 33310], vowel = js ''u'', property = []\<rparr>,
              \<lparr>word = [36208], vowel = js ''ou'', property = []\<rparr>]"

definition exTemplate :: SentenceStructure where
  "exTemplate = \<lparr>internalNeed = 0, limitedRhyme = js ''a'', compoundStructureCount = 0,
     punctuation = [12290], elements = [js ''Mm'', [30340], js ''DD''] @ replicate 24 []\<rparr>"

definition exCompound :: SentenceStructure where
  "exCompound = \<lparr>internalNeed = 0, limitedRhyme = js ''E'', compoundStructureCount = 0,
     punctuation = [12290], elements = [js ''mm'', js ''Dd''] @ replicate 25 []\<rparr>"

definition exPlain :: SentenceStructure where
  "exPlain = \<lparr>internalNeed = 0, limitedRhyme = js ''E'', compoundStructureCount = 0,
     punctuation = [12290], elements = [js ''DD'', js ''DB''] @ replicate 25 []\<rparr>"

definition exLong :: SentenceStructure where
  "exLong = \<lparr>internalNeed = 0, limitedRhyme = js ''E'', compoundStructureCount = 0,
     punctuation = [12290], elements = js ''Mm'' # replicate 26 (js ''Dd'')\<rparr>"

definition exStore :: DataService where
  "exStore = \<lparr>nouns = exNouns, adjectives = [], intransitiveVerbs = exVerbs,
     transitiveVerbs = [], interjections = [], sentenceStructures = [exTemplate],
     specialWords = []\<rparr>"

definition exWorking :: WorkingStructure where
  "exWorking = \<lparr>wCompoundStructureCount = 0, wPunctuation = [12290],
     wElements = [js ''Mm'', [30340], js ''DD''] @ replicate 27 []\<rparr>"

definition exOptions :: PoetryGenerationOptions where
  "exOptions = \<lparr>style = Bold, paragraphCount = 2, linesPerParagraph = 1, useRhyme = False,
     rhymeScheme = None\<rparr>"

definition exPerson :: SentenceStructure where
  "exPerson = \<lparr>internalNeed = 0, limitedRhyme = [], compoundStructureCount = 0,
     punctuation = [12290], elements = js ''MR'' # replicate 26 []\<rparr>"

definition exBlank :: SentenceStructure where
  "exBlank = \<lparr>internalNeed = 0, limitedRhyme = [], compoundStructureCount = 0,
     punctuation = [], elements = replicate 27 []\<rparr>"

section \<open>Facts about strings and draws\<close>

lemma trim_take: "\<exists>n. rev (dropWhile P (rev ys)) = take n ys"
proof -
  have "dropWhile P (rev ys) = drop (length (takeWhile P (rev ys))) (rev ys)"
    by (rule dropWhile_eq_drop)
  then show ?thesis
    by (metis rev_drop rev_rev_ident)
qed

lemma trim_fixed:
  assumes "s = [] \<or> (\<not> isWhiteSpace (hd s) \<and> \<not> isWhiteSpace (last s))"
  shows "trim s = s"
proof (cases "s = []")
  case True
  then show ?thesis by (simp add: trim_def)
next
  case False
  with assms have h: "\<not> isWhiteSpace (hd s)" and l: "\<not> isWhiteSpace (last s)" by auto
  from False h have a: "dropWhile isWhiteSpace s = s"
    by (cases s) auto
  from False l have b: "dropWhile isWhiteSpace (rev s) = rev s"
    by (cases "rev s") (auto simp: last_rev [symmetric] hd_rev)
  show ?thesis by (simp add: trim_def a b)
qed

lemma trim_ends:
  assumes "trim s \<noteq> []"
  shows "\<not> isWhiteSpace (hd (trim s)) \<and> \<not> isWhiteSpace (last (trim s))"
proof -
  let ?y = "dropWhile isWhiteSpace s"
  let ?z = "dropWhile isWhiteSpace (rev ?y)"
  from assms have z: "?z \<noteq> []" by (simp add: trim_def)
  have y: "?y \<noteq> []"
    using z by (metis dropWhile.simps(1) rev.simps(1))
  have l: "\<not> isWhiteSpace (hd ?z)" using z by (rule hd_dropWhile)
  have "last (trim s) = hd ?z" by (simp add: trim_def last_rev)
  moreover
  obtain n where n: "trim s = take n ?y" unfolding trim_def using trim_take by blast
  with assms have "hd (trim s) = hd ?y" by (cases n) auto
  moreover have "\<not> isWhiteSpace (hd ?y)" using y by (rule hd_dropWhile)
  ultimately show ?thesis using l by simp
qed

lemma trim_idem: "trim (trim s) = trim s"
  using trim_ends [of s] by (intro trim_fixed) blast

lemma trim_map:
  assumes "\<And>c. isWhiteSpace (f c) = isWhiteSpace c"
  shows "trim (map f s) = map f (trim s)"
proof -
  have c: "isWhiteSpace \<circ> f = isWhiteSpace" using assms by (simp add: fun_eq_iff)
  show ?thesis by (simp add: trim_def dropWhile_map rev_map c)
qed

lemma set_trim: "set (trim s) \<subseteq> set s"
proof -
  have "set (trim s) \<subseteq> set (dropWhile isWhiteSpace s)"
    unfolding trim_def by (metis set_dropWhileD set_rev subsetI)
  also have "\<dots> \<subseteq> set s" by (meson set_dropWhileD subsetI)
  finally show ?thesis .
qed

lemma trim_padded:
  assumes a: "\<forall>c\<in>set a. isWhiteSpace c" and b: "\<forall>c\<in>set b. isWhiteSpace c"
  shows "trim (a @ s @ b) = trim s"
proof -
  have 1: "dropWhile isWhiteSpace (a @ s @ b) = dropWhile isWhiteSpace (s @ b)"
    by (rule dropWhile_append2) (use a in auto)
  show ?thesis
  proof (cases "\<forall>c\<in>set s. isWhiteSpace c")
    case True
    with b have e1: "dropWhile isWhiteSpace (s @ b) = []"
      and e2: "dropWhile isWhiteSpace s = []" by auto
    show ?thesis unfolding trim_def 1 e1 e2 by simp
  next
    case False
    then have "dropWhile isWhiteSpace (s @ b) = dropWhile isWhiteSpace s @ b"
      by (auto simp: dropWhile_append)
    moreover have "dropWhile isWhiteSpace (rev b @ ys) = dropWhile isWhiteSpace ys" for ys
      by (rule dropWhile_append2) (use b in auto)
    ultimately show ?thesis using 1 by (simp add: trim_def)
  qed
qed

lemma toLowerUnit_idem: "toLowerUnit (toLowerUnit c) = toLowerUnit c"
  by (simp add: toLowerUnit_def)

lemma toLowerUnit_upper: "toLowerUnit (toUpperUnit c) = toLowerUnit c"
  by (auto simp: toLowerUnit_def toUpperUnit_def)

lemma isWhiteSpace_lower: "isWhiteSpace (toLowerUnit c) = isWhiteSpace c"
  by (auto simp: toLowerUnit_def isWhiteSpace_def)

lemma trim_toLowerCase: "trim (toLowerCase s) = toLowerCase (trim s)"
  unfolding toLowerCase_def by (rule trim_map) (rule isWhiteSpace_lower)

lemma randomIndex_less: "0 < n \<Longrightarrow> randomIndex rs k n < n"
  by (simp add: randomIndex_def)

lemma getRandomWord_nonempty:
  "ws \<noteq> [] \<Longrightarrow> \<exists>w\<in>set ws. getRandomWord ws rs k = (Inr w, Suc k)"
  by (simp add: getRandomWord_def randomIndex_less)

lemma getRandomWord_empty: "getRandomWord [] rs k = (Inl EmptyWordList, k)"
  by (simp add: getRandomWord_def)

lemma indexOf_split:
  assumes "s = stem @ c # cmpl" "c \<notin> set stem"
  shows "indexOf c s = Some (length stem)" "take (length stem) s = stem"
    "drop (length stem + 1) s = cmpl"
proof -
  have tk: "takeWhile (\<lambda>x. x \<noteq> c) (stem @ c # cmpl) = stem"
    using assms(2) by (induction stem) auto
  show "indexOf c s = Some (length stem)" by (simp add: indexOf_def assms(1) tk)
  show "take (length stem) s = stem" by (simp add: assms(1))
  show "drop (length stem + 1) s = cmpl" by (simp add: assms(1))
qed

lemma once_split:
  assumes "c \<in> set s" "count_list s c = 1"
  shows "\<exists>stem cmpl. s = stem @ c # cmpl \<and> c \<notin> set stem \<and> c \<notin> set cmpl"
proof -
  from assms(1) obtain ys zs where s: "s = ys @ c # zs" and ys: "c \<notin> set ys"
    by (meson split_list_first)
  from assms(2) s ys have "count_list zs c = 0" by (simp add: count_list_0_iff)
  then have "c \<notin> set zs" by (simp add: count_list_0_iff)
  with s ys show ?thesis by blast
qed

section \<open>Word selector\<close>

lemma lower_basic:
  assumes "lowerCaseConversion lower" "list_all (\<lambda>c. c < 128) x"
  shows "lower x = map toLowerUnit x"
  using assms by (simp add: lowerCaseConversion_def)

lemma normalize_basic:
  assumes "lowerCaseConversion lower" "list_all (\<lambda>c. c < 128) x"
  shows "normalizeRhymeScheme lower x = normalizeRhymeScheme (map toLowerUnit) x"
  by (simp add: normalizeRhymeScheme_def lower_basic [OF assms])

lemma normalize_consts:
  assumes "lowerCaseConversion lower"
  shows "normalizeRhymeScheme lower (js ''e'') = js ''e''"
    "normalizeRhymeScheme lower (js ''ei'') = js ''ei''"
    "normalizeRhymeScheme lower (js ''en'') = js ''en''"
    "normalizeRhymeScheme lower (js ''eng'') = js ''eng''"
    "normalizeRhymeScheme lower (js ''ie'') = js ''ie''"
    "normalizeRhymeScheme lower (js ''ou'') = js ''ou''"
    "normalizeRhymeScheme lower (js ''r'') = js ''r''"
    "normalizeRhymeScheme lower (js ''O'') = js ''e''"
    "normalizeRhymeScheme lower (js ''uo'') = js ''e''"
    "normalizeRhymeScheme lower (js ''z'') = js ''r''"
proof -
  have ev: "list_all (\<lambda>c. c < 128) x \<Longrightarrow> normalizeRhymeScheme (map toLowerUnit) x = y
      \<Longrightarrow> normalizeRhymeScheme lower x = y" for x y
    using normalize_basic [OF assms] by simp
  show "normalizeRhymeScheme lower (js ''e'') = js ''e''"
    "normalizeRhymeScheme lower (js ''ei'') = js ''ei''"
    "normalizeRhymeScheme lower (js ''en'') = js ''en''"
    "normalizeRhymeScheme lower (js ''eng'') = js ''eng''"
    "normalizeRhymeScheme lower (js ''ie'') = js ''ie''"
    "normalizeRhymeScheme lower (js ''ou'') = js ''ou''"
    "normalizeRhymeScheme lower (js ''r'') = js ''r''"
    "normalizeRhymeScheme lower (js ''O'') = js ''e''"
    "normalizeRhymeScheme lower (js ''uo'') = js ''e''"
    "normalizeRhymeScheme lower (js ''z'') = js ''r''"
    by (rule ev; simp add: normalizeRhymeScheme_def js_def toLowerUnit_def trim_def
        isWhiteSpace_def)+
qed

lemma lower_stable:
  assumes "lowerCaseConversion lower"
  shows "trim (lower (trim (lower x))) = trim (lower x)"
proof -
  from assms have "lower (trim (lower x)) = trim (lower (lower x))"
    by (simp add: lowerCaseConversion_def)
  also from assms have "\<dots> = trim (lower x)" by (simp add: lowerCaseConversion_def)
  finally show ?thesis by (simp add: trim_idem)
qed

lemma normalize_idem:
  assumes "lowerCaseConversion lower"
  shows "normalizeRhymeScheme lower (normalizeRhymeScheme lower x) = normalizeRhymeScheme lower x"
proof -
  define n where "n = trim (lower x)"
  have st: "trim (lower n) = n" unfolding n_def by (rule lower_stable [OF assms])
  have nx: "normalizeRhymeScheme lower x =
     (if n = js ''o'' \<or> n = js ''uo'' then js ''e''
      else if n = js ''ui'' then js ''ei''
      else if n = js ''in'' \<or> n = js ''un'' \<or> n = js ''vn'' then js ''en''
      else if n = js ''ing'' then js ''eng''
      else if n = js ''ve'' then js ''ie''
      else if n = js ''iu'' then js ''ou''
      else if n = js ''z'' then js ''r''
      else n)"
    by (simp add: normalizeRhymeScheme_def n_def Let_def)
  have nn: "normalizeRhymeScheme lower n =
     (if n = js ''o'' \<or> n = js ''uo'' then js ''e''
      else if n = js ''ui'' then js ''ei''
      else if n = js ''in'' \<or> n = js ''un'' \<or> n = js ''vn'' then js ''en''
      else if n = js ''ing'' then js ''eng''
      else if n = js ''ve'' then js ''ie''
      else if n = js ''iu'' then js ''ou''
      else if n = js ''z'' then js ''r''
      else n)"
    by (simp add: normalizeRhymeScheme_def st Let_def)
  show ?thesis
    unfolding nx by (simp add: normalize_consts [OF assms]) (simp add: nn)
qed

lemma normalize_via: "normalizeRhymeScheme lower y = normalizeRhymeScheme lower x"
  if "trim (lower y) = trim (lower x)"
  using that by (simp add: normalizeRhymeScheme_def)

lemma basic_upper: "list_all (\<lambda>c. c < 128) x \<Longrightarrow> list_all (\<lambda>c. c < 128) (map toUpperUnit x)"
  by (induction x) (auto simp: toUpperUnit_def)

lemma basicLatin_conversion: "lowerCaseConversion toLowerCase"
  unfolding lowerCaseConversion_def
proof (intro conjI allI impI)
  show "toLowerCase (toLowerCase x) = toLowerCase x" for x
    by (simp add: toLowerCase_def toLowerUnit_idem)
  show "toLowerCase (trim x) = trim (toLowerCase x)" for x
    by (simp add: trim_toLowerCase)
  show "toLowerCase x = map toLowerUnit x" for x
    by (simp add: toLowerCase_def)
qed

text \<open>
  C7: with the conversion of the runtime to lower case, \<open>normalizeRhymeScheme\<close> is idempotent
  on every string. It lowers the case and trims before the lookup, so that the lowered
  variant of a string, a variant with white space around it and, for a string of Basic
  Latin code units, the variant in upper case have the value of the string; \<open>O\<close> and
  \<open>uo\<close> fall into the class of \<open>e\<close>, and \<open>z\<close> into the class of \<open>r\<close>.
\<close>

theorem normalizeRhymeScheme_canonical:
  assumes "lowerCaseConversion lower"
  shows "normalizeRhymeScheme lower (normalizeRhymeScheme lower x) = normalizeRhymeScheme lower x
   \<and> normalizeRhymeScheme lower (lower x) = normalizeRhymeScheme lower x
   \<and> normalizeRhymeScheme lower (filter isWhiteSpace a @ x @ filter isWhiteSpace b)
       = normalizeRhymeScheme lower x
   \<and> (list_all (\<lambda>c. c < 128) x
        \<longrightarrow> normalizeRhymeScheme lower (map toUpperUnit x) = normalizeRhymeScheme lower x)
   \<and> normalizeRhymeScheme lower (js ''O'') = normalizeRhymeScheme lower (js ''e'')
   \<and> normalizeRhymeScheme lower (js ''uo'') = normalizeRhymeScheme lower (js ''e'')
   \<and> normalizeRhymeScheme lower (js ''e'') = js ''e''
   \<and> normalizeRhymeScheme lower (js ''z'') = normalizeRhymeScheme lower (js ''r'')
   \<and> normalizeRhymeScheme lower (js ''r'') = js ''r''"
proof -
  have lo: "normalizeRhymeScheme lower (lower x) = normalizeRhymeScheme lower x"
    using assms by (intro normalize_via) (simp add: lowerCaseConversion_def)
  have "trim (lower (filter isWhiteSpace a @ x @ filter isWhiteSpace b))
          = lower (trim (filter isWhiteSpace a @ x @ filter isWhiteSpace b))"
    using assms by (simp add: lowerCaseConversion_def)
  also have "\<dots> = lower (trim x)" by (simp add: trim_padded)
  also from assms have "\<dots> = trim (lower x)" by (simp add: lowerCaseConversion_def)
  finally have pad: "normalizeRhymeScheme lower (filter isWhiteSpace a @ x @ filter isWhiteSpace b)
       = normalizeRhymeScheme lower x"
    by (rule normalize_via)
  have up: "normalizeRhymeScheme lower (map toUpperUnit x) = normalizeRhymeScheme lower x"
    if b: "list_all (\<lambda>c. c < 128) x"
  proof -
    have "lower (map toUpperUnit x) = map toLowerUnit (map toUpperUnit x)"
      using assms basic_upper [OF b] by (rule lower_basic)
    also have "\<dots> = map toLowerUnit x" by (simp add: toLowerUnit_upper)
    also have "\<dots> = lower x" using assms b by (rule lower_basic [symmetric])
    finally show ?thesis by (intro normalize_via) simp
  qed
  show ?thesis
    using up by (simp only: normalize_idem [OF assms] lo pad normalize_consts [OF assms]) simp
qed

theorem normalizeRhymeScheme_canonical_witness:
  "lowerCaseConversion toLowerCase
   \<and> normalizeRhymeScheme toLowerCase (normalizeRhymeScheme toLowerCase (js '' Uo ''))
       = normalizeRhymeScheme toLowerCase (js '' Uo '')
   \<and> normalizeRhymeScheme toLowerCase (js '' Uo '') = js ''e''
   \<and> normalizeRhymeScheme toLowerCase (js ''O'') = normalizeRhymeScheme toLowerCase (js ''e'')"
proof -
  note h = basicLatin_conversion
  from normalizeRhymeScheme_canonical [OF h, of "js '' Uo ''"]
  have "normalizeRhymeScheme toLowerCase (normalizeRhymeScheme toLowerCase (js '' Uo ''))
       = normalizeRhymeScheme toLowerCase (js '' Uo '')"
    and "normalizeRhymeScheme toLowerCase (js ''O'') = normalizeRhymeScheme toLowerCase (js ''e'')"
    by simp_all
  moreover have "normalizeRhymeScheme toLowerCase (js '' Uo '') = js ''e''"
    by (simp add: normalizeRhymeScheme_def js_def toLowerCase_def toLowerUnit_def trim_def
        isWhiteSpace_def)
  ultimately show ?thesis using h by simp
qed

lemma selectWord_basic:
  assumes "partOfSpeech ctx \<in> set (map js [''MM'', ''TT'', ''DJ'', ''XA''])"
    and "getWordsByPartOfSpeech ds (partOfSpeech ctx) = Inr ws"
  shows "selectWord ds ctx rs k = selectBasicWord ws (needsRhyme ctx) (ctxRhymeScheme ctx) rs k"
  using assms by (auto simp: selectWord_def Let_def)

text \<open>
  C6: for the tags \<open>MM\<close>, \<open>TT\<close>, \<open>DJ\<close> and \<open>XA\<close>, when a rhyme is needed and a
  (non-empty) scheme is given, the selector draws from the entries of the pool whose vowel
  is the scheme, and from the whole pool only when there is no such entry; a word drawn from
  the restricted pool is the word of a record whose vowel is the scheme.
\<close>

theorem selectBasicWord_rhyme_filter:
  assumes pos: "partOfSpeech ctx \<in> set (map js [''MM'', ''TT'', ''DJ'', ''XA''])"
    and pool: "getWordsByPartOfSpeech ds (partOfSpeech ctx) = Inr ws"
    and nr: "needsRhyme ctx"
    and scheme: "ctxRhymeScheme ctx = Some r" "r \<noteq> []"
  shows "if filter (\<lambda>w. vowel w = r) ws = []
         then selectWord ds ctx rs k = mapResult word (getRandomWord ws rs k)
         else \<exists>w\<in>set ws. vowel w = r \<and> selectWord ds ctx rs k = (Inr (word w), Suc k)"
proof -
  let ?rh = "filter (\<lambda>w. vowel w = r) ws"
  have sel: "selectWord ds ctx rs k = selectBasicWord ws True (Some r) rs k"
    using selectWord_basic [OF pos pool] nr scheme by simp
  show ?thesis
  proof (cases "?rh = []")
    case True
    then show ?thesis by (simp add: sel selectBasicWord_def truthy_def)
  next
    case False
    then obtain w where w: "w \<in> set ?rh" and g: "getRandomWord ?rh rs k = (Inr w, Suc k)"
      using getRandomWord_nonempty by blast
    from False scheme have "selectBasicWord ws True (Some r) rs k = (Inr (word w), Suc k)"
      by (simp add: selectBasicWord_def truthy_def g)
    with w False show ?thesis by (auto simp: sel)
  qed
qed

theorem selectBasicWord_rhyme_filter_witness:
  "partOfSpeech \<lparr>partOfSpeech = js ''MM'', needsRhyme = True, ctxRhymeScheme = Some (js ''a'')\<rparr>
      \<in> set (map js [''MM'', ''TT'', ''DJ'', ''XA''])
   \<and> getWordsByPartOfSpeech exStore (js ''MM'') = Inr exNouns
   \<and> filter (\<lambda>w. vowel w = js ''a'') exNouns \<noteq> []
   \<and> selectWord exStore
        \<lparr>partOfSpeech = js ''MM'', needsRhyme = True, ctxRhymeScheme = Some (js ''a'')\<rparr>
        (\<lambda>i. 1) 0 = (Inr [33457], 1)"
proof -
  let ?ctx = "\<lparr>partOfSpeech = js ''MM'', needsRhyme = True, ctxRhymeScheme = Some (js ''a'')\<rparr>"
  have h1: "partOfSpeech ?ctx \<in> set (map js [''MM'', ''TT'', ''DJ'', ''XA''])" by simp
  have h2: "getWordsByPartOfSpeech exStore (partOfSpeech ?ctx) = Inr exNouns"
    by (simp add: getWordsByPartOfSpeech_def exStore_def)
  have h3: "needsRhyme ?ctx" by simp
  have h4: "ctxRhymeScheme ?ctx = Some (js ''a'')" by simp
  have h5: "js ''a'' \<noteq> []" by (simp add: js_def)
  have ne: "filter (\<lambda>w. vowel w = js ''a'') exNouns \<noteq> []"
    by (simp add: exNouns_def)
  from selectBasicWord_rhyme_filter [OF h1 h2 h3 h4 h5, of "\<lambda>i. 1" 0] ne
  have "\<exists>w\<in>set exNouns. vowel w = js ''a'' \<and> selectWord exStore ?ctx (\<lambda>i. 1) 0 = (Inr (word w), Suc 0)"
    by simp
  then have "selectWord exStore ?ctx (\<lambda>i. 1) 0 = (Inr [33457], 1)"
    by (auto simp: exNouns_def js_def)
  with h1 h2 ne show ?thesis by simp
qed

text \<open>
  C10: for the tag \<open>DD\<close>, when a rhyme is needed, a (non-empty) scheme is given and no
  intransitive verb has the scheme as its vowel, \<open>selectWord\<close> throws the error of the empty
  word list, without a draw; the rule of the basic tags, on the same pool, falls back to the
  whole pool instead.
\<close>

theorem selectIntransitiveVerb_no_fallback:
  assumes pos: "partOfSpeech ctx = js ''DD''"
    and nr: "needsRhyme ctx"
    and scheme: "ctxRhymeScheme ctx = Some r" "r \<noteq> []"
    and none: "\<forall>w\<in>set (intransitiveVerbs ds). vowel w \<noteq> r"
  shows "selectWord ds ctx rs k = (Inl EmptyWordList, k)
         \<and> selectBasicWord (intransitiveVerbs ds) (needsRhyme ctx) (ctxRhymeScheme ctx) rs k
             = mapResult word (getRandomWord (intransitiveVerbs ds) rs k)"
proof -
  from none have e: "filter (\<lambda>w. vowel w = r) (intransitiveVerbs ds) = []"
    by (simp add: filter_empty_conv)
  have "getWordsByPartOfSpeech ds (js ''DD'') = Inr (intransitiveVerbs ds)"
    by (simp add: getWordsByPartOfSpeech_def js_def)
  then have "selectWord ds ctx rs k
      = selectIntransitiveVerb (intransitiveVerbs ds) True (Some r) rs k"
    using pos nr scheme by (simp add: selectWord_def Let_def js_def)
  also have "\<dots> = (Inl EmptyWordList, k)"
    using scheme(2) by (simp add: selectIntransitiveVerb_def truthy_def getRandomRhymingWord_def
        e getRandomWord_empty)
  finally have a: "selectWord ds ctx rs k = (Inl EmptyWordList, k)" .
  have b: "selectBasicWord (intransitiveVerbs ds) (needsRhyme ctx) (ctxRhymeScheme ctx) rs k
             = mapResult word (getRandomWord (intransitiveVerbs ds) rs k)"
    by (simp add: selectBasicWord_def scheme e)
  from a b show ?thesis by simp
qed

theorem selectIntransitiveVerb_no_fallback_witness:
  "list_all (\<lambda>w. vowel w \<noteq> js ''e'') (intransitiveVerbs exStore)
   \<and> selectWord exStore
        \<lparr>partOfSpeech = js ''DD'', needsRhyme = True, ctxRhymeScheme = Some (js ''e'')\<rparr>
        (\<lambda>i. 0) 0 = (Inl EmptyWordList, 0)"
proof -
  let ?ctx = "\<lparr>partOfSpeech = js ''DD'', needsRhyme = True, ctxRhymeScheme = Some (js ''e'')\<rparr>"
  have h1: "partOfSpeech ?ctx = js ''DD''" by simp
  have h2: "needsRhyme ?ctx" by simp
  have h3: "ctxRhymeScheme ?ctx = Some (js ''e'')" by simp
  have h4: "js ''e'' \<noteq> []" by (simp add: js_def)
  have h5: "\<forall>w\<in>set (intransitiveVerbs exStore). vowel w \<noteq> js ''e''"
    by (simp add: exStore_def exVerbs_def js_def)
  from selectIntransitiveVerb_no_fallback [OF h1 h2 h3 h4 h5, of "\<lambda>i. 0" 0] h5
  show ?thesis by (simp add: list_all_iff)
qed

lemma progressiveForm_split:
  "s = stem @ slash # cmpl \<Longrightarrow> slash \<notin> set stem \<Longrightarrow> progressiveForm s = stem @ zhe @ cmpl"
  by (simp add: progressiveForm_def indexOf_split)

lemma resultativeForm_split:
  "s = stem @ slash # cmpl \<Longrightarrow> slash \<notin> set stem \<Longrightarrow> resultativeForm s = trim cmpl @ stem @ de"
  by (simp add: resultativeForm_def indexOf_split)

lemma selectProgressiveVerb_drawn:
  assumes "\<exists>w\<in>set ws. slash \<in> set (word w)"
  shows "\<exists>w\<in>set ws. slash \<in> set (word w)
           \<and> selectProgressiveVerb ws nr scheme rs k = (Inr (progressiveForm (word w)), Suc k)"
proof -
  let ?sp = "filter (\<lambda>w. slash \<in> set (word w)) ws"
  let ?rh = "filter (\<lambda>w. Some (vowel w) = scheme) ?sp"
  let ?cand = "if nr \<and> truthy scheme \<and> length ?rh > 0 then ?rh else ?sp"
  from assms have sp: "?sp \<noteq> []" by (simp add: filter_empty_conv)
  then have ne: "?cand \<noteq> []" by simp
  have sub: "set ?cand \<subseteq> set ?sp" by auto
  from ne obtain w where w: "w \<in> set ?cand" and g: "getRandomWord ?cand rs k = (Inr w, Suc k)"
    using getRandomWord_nonempty by blast
  have "selectProgressiveVerb ws nr scheme rs k = (Inr (progressiveForm (word w)), Suc k)"
    unfolding selectProgressiveVerb_def Let_def using ne g by simp
  moreover from w sub have "w \<in> set ws" "slash \<in> set (word w)" by auto
  ultimately show ?thesis by blast
qed

lemma selectResultativeVerb_drawn:
  assumes "\<exists>w\<in>set ws. slash \<in> set (word w)"
  shows "\<exists>w\<in>set ws. slash \<in> set (word w)
           \<and> selectResultativeVerb ws rs k = (Inr (resultativeForm (word w)), Suc k)"
proof -
  let ?cand = "filter (\<lambda>w. slash \<in> set (word w)) ws"
  from assms have ne: "?cand \<noteq> []" by (simp add: filter_empty_conv)
  then obtain w where w: "w \<in> set ?cand" and g: "getRandomWord ?cand rs k = (Inr w, Suc k)"
    using getRandomWord_nonempty by blast
  have "selectResultativeVerb ws rs k = (Inr (resultativeForm (word w)), Suc k)"
    unfolding selectResultativeVerb_def Let_def using ne g by simp
  moreover from w have "w \<in> set ws" "slash \<in> set (word w)" by auto
  ultimately show ?thesis by blast
qed

lemma de_no_slash: "slash \<notin> set de"
  by (simp add: slash_def de_def)

lemma drawn_split:
  assumes w: "w \<in> set ws" "slash \<in> set (word w)"
    and once: "\<forall>w\<in>set ws. slash \<in> set (word w) \<longrightarrow> count_list (word w) slash = 1"
  shows "\<exists>stem cmpl. word w = stem @ slash # cmpl \<and> slash \<notin> set stem \<and> slash \<notin> set cmpl"
proof -
  from once w(1) have "slash \<in> set (word w) \<longrightarrow> count_list (word w) slash = 1" by (rule bspec)
  with w(2) have "count_list (word w) slash = 1" by (rule rev_mp)
  with w(2) show ?thesis by (rule once_split)
qed

text \<open>
  C8: on a pool that has a splittable verb, and whose splittable verbs hold the separator
  exactly once, the progressive selector returns stem, progressive suffix, complement of a
  record of the pool, and the resultative selector returns trimmed complement, stem,
  resultative suffix of a record of the pool, a text without the separator. For the single
  record U+9A91 \<open>/\<close> U+9A6C they return U+9A91 U+7740 U+9A6C and U+9A6C U+9A91 U+5F97.
\<close>

theorem compound_verb_forms:
  assumes some: "\<exists>w\<in>set ws. slash \<in> set (word w)"
    and once: "\<forall>w\<in>set ws. slash \<in> set (word w) \<longrightarrow> count_list (word w) slash = 1"
  shows "(\<exists>w\<in>set ws. \<exists>stem cmpl. word w = stem @ slash # cmpl
            \<and> slash \<notin> set stem \<and> slash \<notin> set cmpl
            \<and> selectProgressiveVerb ws nr scheme rs k = (Inr (stem @ zhe @ cmpl), Suc k))
       \<and> (\<exists>w\<in>set ws. \<exists>stem cmpl. word w = stem @ slash # cmpl
            \<and> slash \<notin> set stem \<and> slash \<notin> set cmpl
            \<and> selectResultativeVerb ws rs k = (Inr (trim cmpl @ stem @ de), Suc k)
            \<and> slash \<notin> set (trim cmpl @ stem @ de))
       \<and> selectProgressiveVerb [\<lparr>word = [39569, 47, 39532], vowel = v, property = p\<rparr>]
            nr scheme rs k = (Inr [39569, 30528, 39532], Suc k)
       \<and> selectResultativeVerb [\<lparr>word = [39569, 47, 39532], vowel = v, property = p\<rparr>]
            rs k = (Inr [39532, 39569, 24471], Suc k)"
proof -
  have prog: "\<exists>w\<in>set ws. \<exists>stem cmpl. word w = stem @ slash # cmpl
            \<and> slash \<notin> set stem \<and> slash \<notin> set cmpl
            \<and> selectProgressiveVerb ws nr scheme rs k = (Inr (stem @ zhe @ cmpl), Suc k)"
  proof -
    from selectProgressiveVerb_drawn [OF some, of nr scheme rs k]
    obtain w where w: "w \<in> set ws" "slash \<in> set (word w)"
      and r: "selectProgressiveVerb ws nr scheme rs k = (Inr (progressiveForm (word w)), Suc k)"
      by blast
    from drawn_split [OF w once]
    obtain stem cmpl where s: "word w = stem @ slash # cmpl" "slash \<notin> set stem"
      "slash \<notin> set cmpl"
      by blast
    from s r have "selectProgressiveVerb ws nr scheme rs k = (Inr (stem @ zhe @ cmpl), Suc k)"
      by (simp add: progressiveForm_split)
    with w(1) s show ?thesis by (intro bexI [of _ w] exI [of _ stem] exI [of _ cmpl]) simp_all
  qed
  have res: "\<exists>w\<in>set ws. \<exists>stem cmpl. word w = stem @ slash # cmpl
            \<and> slash \<notin> set stem \<and> slash \<notin> set cmpl
            \<and> selectResultativeVerb ws rs k = (Inr (trim cmpl @ stem @ de), Suc k)
            \<and> slash \<notin> set (trim cmpl @ stem @ de)"
  proof -
    from selectResultativeVerb_drawn [OF some, of rs k]
    obtain w where w: "w \<in> set ws" "slash \<in> set (word w)"
      and r: "selectResultativeVerb ws rs k = (Inr (resultativeForm (word w)), Suc k)"
      by blast
    from drawn_split [OF w once]
    obtain stem cmpl where s: "word w = stem @ slash # cmpl" "slash \<notin> set stem"
      "slash \<notin> set cmpl"
      by blast
    from s r have a: "selectResultativeVerb ws rs k = (Inr (trim cmpl @ stem @ de), Suc k)"
      by (simp add: resultativeForm_split)
    from s(2,3) set_trim [of cmpl] have "slash \<notin> set (trim cmpl @ stem @ de)"
      using de_no_slash by auto
    with a w(1) s show ?thesis by (intro bexI [of _ w] exI [of _ stem] exI [of _ cmpl]) simp_all
  qed
  have ex1: "selectProgressiveVerb [\<lparr>word = [39569, 47, 39532], vowel = v, property = p\<rparr>]
            nr scheme rs k = (Inr [39569, 30528, 39532], Suc k)"
    by (simp add: selectProgressiveVerb_def getRandomWord_def randomIndex_def progressiveForm_def
        indexOf_def slash_def zhe_def Let_def)
  have ex2: "selectResultativeVerb [\<lparr>word = [39569, 47, 39532], vowel = v, property = p\<rparr>]
            rs k = (Inr [39532, 39569, 24471], Suc k)"
    by (simp add: selectResultativeVerb_def getRandomWord_def randomIndex_def resultativeForm_def
        indexOf_def slash_def de_def trim_def isWhiteSpace_def Let_def)
  show ?thesis by (intro conjI prog res ex1 ex2)
qed

theorem compound_verb_forms_witness:
  "(\<exists>w\<in>set exVerbs. slash \<in> set (word w))
   \<and> list_all (\<lambda>w. slash \<in> set (word w) \<longrightarrow> count_list (word w) slash = 1) exVerbs
   \<and> (\<exists>w\<in>set exVerbs. \<exists>stem cmpl. word w = stem @ slash # cmpl
         \<and> slash \<notin> set stem \<and> slash \<notin> set cmpl
         \<and> selectResultativeVerb exVerbs (\<lambda>i. 0) 0 = (Inr (trim cmpl @ stem @ de), Suc 0)
         \<and> slash \<notin> set (trim cmpl @ stem @ de))"
proof -
  have h1: "\<exists>w\<in>set exVerbs. slash \<in> set (word w)"
    by (simp add: exVerbs_def slash_def)
  have h2: "\<forall>w\<in>set exVerbs. slash \<in> set (word w) \<longrightarrow> count_list (word w) slash = 1"
    by (simp add: exVerbs_def slash_def)
  from compound_verb_forms [OF h1 h2, of False None "\<lambda>i. 0" 0] h1 h2
  show ?thesis by (intro conjI) (simp_all add: list_all_iff)
qed

section \<open>Structure generator: expansion\<close>

lemma elementAt_empty_iff:
  "elementAt xs i = [] \<longleftrightarrow> takeWhile (\<lambda>e. e \<noteq> []) (drop i xs) = []"
proof (cases "i < length xs")
  case True
  then have "drop i xs = xs ! i # drop (Suc i) xs" by (simp add: Cons_nth_drop_Suc)
  with True show ?thesis by (simp add: elementAt_def jsIndex_def)
next
  case False
  then show ?thesis by (simp add: elementAt_def jsIndex_def)
qed

lemma elementAt_take: "i < n \<Longrightarrow> elementAt (take n xs) i = elementAt xs i"
  by (simp add: elementAt_def jsIndex_def)

lemma takeWhile_step:
  assumes "elementAt xs i \<noteq> []"
  shows "takeWhile (\<lambda>e. e \<noteq> []) (drop i xs)
           = elementAt xs i # takeWhile (\<lambda>e. e \<noteq> []) (drop (Suc i) xs)"
proof -
  from assms have i: "i < length xs" by (auto simp: elementAt_def jsIndex_def split: if_splits)
  then have "drop i xs = xs ! i # drop (Suc i) xs" by (simp add: Cons_nth_drop_Suc)
  with i assms show ?thesis by (simp add: elementAt_def jsIndex_def)
qed

lemma processLoop_concat:
  "processLoop st i acc =
     acc @ concat (map (expandElement (limitedRhyme st))
                    (takeWhile (\<lambda>e. e \<noteq> []) (drop i (take 27 (elements st)))))"
proof (induction st i acc rule: processLoop.induct)
  case (1 st i acc)
  show ?case
  proof (cases "i < 27")
    case False
    then show ?thesis by (simp add: processLoop.simps [of st i acc])
  next
    case True
    then have at: "elementAt (take 27 (elements st)) i = elementAt (elements st) i"
      by (rule elementAt_take)
    show ?thesis
    proof (cases "elementAt (elements st) i = []")
      case e: True
      then have "takeWhile (\<lambda>e. e \<noteq> []) (drop i (take 27 (elements st))) = []"
        using at elementAt_empty_iff [of "take 27 (elements st)" i] by simp
      with True e show ?thesis by (simp add: processLoop.simps [of st i acc])
    next
      case e: False
      with at have "elementAt (take 27 (elements st)) i \<noteq> []" by simp
      from takeWhile_step [OF this] at
      have step: "takeWhile (\<lambda>e. e \<noteq> []) (drop i (take 27 (elements st)))
           = elementAt (elements st) i
             # takeWhile (\<lambda>e. e \<noteq> []) (drop (Suc i) (take 27 (elements st)))"
        by simp
      from True e "1.IH"
      have "processLoop st (i + 1)
              (acc @ expandElement (limitedRhyme st) (elementAt (elements st) i))
            = (acc @ expandElement (limitedRhyme st) (elementAt (elements st) i))
              @ concat (map (expandElement (limitedRhyme st))
                  (takeWhile (\<lambda>e. e \<noteq> []) (drop (i + 1) (take 27 (elements st)))))"
        by simp
      with True e show ?thesis
        by (simp add: processLoop.simps [of st i acc] step)
    qed
  qed
qed

lemma processStructureElements_Some:
  "processStructureElements (Some st) nr scheme =
     Inr \<lparr>wCompoundStructureCount = compoundStructureCount st,
          wPunctuation = punctuation st,
          wElements = padTo30 (concat (map (expandElement (limitedRhyme st))
                        (takeWhile (\<lambda>e. e \<noteq> []) (take 27 (elements st)))))\<rparr>"
  by (simp add: processStructureElements_def processLoop_concat)

lemma processStructureElements_flag:
  "processStructureElements structure nr scheme = processStructureElements structure nr' scheme'"
  by (simp add: processStructureElements_def)

lemma expandElement_length:
  "length (expandElement lr e) = (if e = js ''Dd'' \<and> lr = js ''E'' then 3 else 1)"
  by (simp add: expandElement_def)

lemma expandElement_three:
  "(expandElement lr e = [js ''DV'', zhe, js ''DO'']) = (e = js ''Dd'' \<and> lr = js ''E'')"
  by (simp add: expandElement_def)

lemma length_concat_expand:
  "length (concat (map (expandElement lr) xs))
     = length xs + 2 * (if lr = js ''E'' then count_list xs (js ''Dd'') else 0)"
  by (induction xs) (simp_all add: expandElement_length)

lemma length_padTo30: "length (padTo30 xs) = max 30 (length xs)"
  by (simp add: padTo30_def)

lemma selectTemplates_length:
  "selectTemplates structures totalLines sty scheme idxs rs k = (Inr temps, k')
     \<Longrightarrow> length temps = length idxs"
proof (induction idxs arbitrary: k temps k')
  case Nil
  then show ?case by simp
next
  case (Cons lineIndex rest)
  let ?sel = "if sty = Quiet
      then selectQuietStructure structures (shouldLineRhyme lineIndex totalLines) scheme rs k
      else selectBoldStructure structures (shouldLineRhyme lineIndex totalLines) scheme rs k"
  obtain r k1 where sel: "?sel = (r, k1)" by (cases ?sel)
  show ?case
  proof (cases r)
    case (Inl e)
    with Cons.prems sel show ?thesis by simp
  next
    case (Inr s)
    obtain r2 k2 where rec: "selectTemplates structures totalLines sty scheme rest rs k1 = (r2, k2)"
      by (cases "selectTemplates structures totalLines sty scheme rest rs k1")
    show ?thesis
    proof (cases r2)
      case (Inl e)
      with Cons.prems sel Inr rec show ?thesis by simp
    next
      case r2: (Inr ts)
      with Cons.prems sel Inr rec have "temps = s # ts" by simp
      moreover from Cons.IH rec r2 have "length ts = length rest" by simp
      ultimately show ?thesis by simp
    qed
  qed
qed

lemma map_shifted_nth: "map (\<lambda>i. f (xs ! (i - 1))) [1..<length xs + 1] = map f xs"
proof -
  have "[1..<length xs + 1] = map Suc [0..<length xs]"
    by (simp add: map_Suc_upt)
  then have "map (\<lambda>i. f (xs ! (i - 1))) [1..<length xs + 1] = map (\<lambda>i. f (xs ! i)) [0..<length xs]"
    by (simp add: o_def)
  also have "\<dots> = map f (map (\<lambda>i. xs ! i) [0..<length xs])" by (simp add: o_def)
  also have "\<dots> = map f xs" by (simp add: map_nth)
  finally show ?thesis .
qed

lemma createStructure_replicate:
  "createStructure ds pc lpp sty scheme rs k =
     (case selectTemplates (sentenceStructures ds) lpp sty scheme [1..<lpp + 1] rs k of
        (Inl e, k') \<Rightarrow> (Inl e, k')
      | (Inr tempStructures, k') \<Rightarrow>
          (collect (concat (replicate pc
             (map (\<lambda>t. processStructureElements t nr scheme') tempStructures))), k'))"
proof -
  obtain r k' where sel:
    "selectTemplates (sentenceStructures ds) lpp sty scheme [1..<lpp + 1] rs k = (r, k')"
    by (cases "selectTemplates (sentenceStructures ds) lpp sty scheme [1..<lpp + 1] rs k")
  show ?thesis
  proof (cases r)
    case (Inl e)
    with sel show ?thesis by (simp add: createStructure_def)
  next
    case (Inr temps)
    with sel have len: "length temps = lpp" using selectTemplates_length by fastforce
    have row: "map (\<lambda>lineIndex. processStructureElements (temps ! (lineIndex - 1)) b scheme)
                 [1..<lpp + 1]
               = map (\<lambda>t. processStructureElements t nr scheme') temps" for b
    proof -
      have "map (\<lambda>i. processStructureElements (temps ! (i - 1)) b scheme) [1..<length temps + 1]
              = map (\<lambda>t. processStructureElements t b scheme) temps"
        by (rule map_shifted_nth)
      also have "\<dots> = map (\<lambda>t. processStructureElements t nr scheme') temps"
        using processStructureElements_flag by (intro map_cong) auto
      finally show ?thesis by (simp add: len)
    qed
    have "map (\<lambda>paragraphIndex.
              map (\<lambda>lineIndex.
                processStructureElements (temps ! (lineIndex - 1))
                  (shouldLineRhyme paragraphIndex pc) scheme) [1..<lpp + 1]) [1..<pc + 1]
          = map (\<lambda>paragraphIndex. map (\<lambda>t. processStructureElements t nr scheme') temps)
              [1..<pc + 1]"
      by (simp only: row)
    also have "\<dots> = replicate (length [1..<pc + 1])
                       (map (\<lambda>t. processStructureElements t nr scheme') temps)"
      by (rule map_replicate_const)
    also have "length [1..<pc + 1] = pc" by simp
    finally have eq: "map (\<lambda>paragraphIndex.
              map (\<lambda>lineIndex.
                processStructureElements (temps ! (lineIndex - 1))
                  (shouldLineRhyme paragraphIndex pc) scheme) [1..<lpp + 1]) [1..<pc + 1]
          = replicate pc (map (\<lambda>t. processStructureElements t nr scheme') temps)" .
    show ?thesis
      unfolding createStructure_def sel Inr by (simp only: prod.case sum.case eq)
  qed
qed

text \<open>
  C2, as stated, fails: in a poem of three stanzas the flag recomputed for stanza 1 is true
  and the one for stanza 2 is false, and the template with the slot code \<open>Dd\<close> and the
  sentinel \<open>E\<close> is expanded to the same working structure under both; the compound is
  expanded under the false flag.
\<close>

theorem rhyme_flag_governs_expansion_counterexample:
  "shouldLineRhyme 1 3 \<and> \<not> shouldLineRhyme 2 3
   \<and> processStructureElements (Some exCompound) (shouldLineRhyme 1 3) (Some (js ''a''))
       = processStructureElements (Some exCompound) (shouldLineRhyme 2 3) (Some (js ''a''))
   \<and> processStructureElements (Some exCompound) (shouldLineRhyme 2 3) (Some (js ''a''))
       = Inr \<lparr>wCompoundStructureCount = 0, wPunctuation = [12290],
              wElements = [js ''MM'', js ''DV'', zhe, js ''DO''] @ replicate 26 []\<rparr>"
proof -
  have "processStructureElements (Some exCompound) b (Some (js ''a''))
       = Inr \<lparr>wCompoundStructureCount = 0, wPunctuation = [12290],
              wElements = [js ''MM'', js ''DV'', zhe, js ''DO''] @ replicate 26 []\<rparr>" for b
    by (simp add: processStructureElements_Some exCompound_def expandElement_def padTo30_def
        js_def toLowerCase_def toUpperCase_def toLowerUnit_def toUpperUnit_def)
  then show ?thesis by (simp add: shouldLineRhyme_def)
qed

text \<open>
  C2, amended: \<open>createStructure\<close> recomputes the flag for every stanza and passes it on,
  but \<open>processStructureElements\<close> reads neither the flag nor the rhyme scheme: its result
  is the same for every flag and scheme, and the working structures of a poem are the
  expansions of the selected templates, repeated once for each stanza.
\<close>

theorem processStructureElements_ignores_flag:
  "processStructureElements tmpl nr scheme = processStructureElements tmpl nr' scheme'
   \<and> createStructure ds pc lpp sty scheme rs k =
       (case selectTemplates (sentenceStructures ds) lpp sty scheme [1..<lpp + 1] rs k of
          (Inl e, k') \<Rightarrow> (Inl e, k')
        | (Inr tempStructures, k') \<Rightarrow>
            (collect (concat (replicate pc
               (map (\<lambda>t. processStructureElements t nr' scheme') tempStructures))), k'))"
  using processStructureElements_flag [of tmpl nr scheme nr' scheme']
    createStructure_replicate [of ds pc lpp sty scheme rs k nr' scheme']
  by simp

theorem processStructureElements_ignores_flag_witness:
  "processStructureElements (Some exCompound) True (Some (js ''a''))
     = processStructureElements (Some exCompound) False None"
  using processStructureElements_ignores_flag [of "Some exCompound" True "Some (js ''a'')" False None]
  by simp

lemmas string_evals = js_def toLowerCase_def toUpperCase_def toLowerUnit_def toUpperUnit_def

lemmas tag_evals = partOfSpeechTags_def legacyMappings_def inheritedKeys_def

text \<open>
  C3, as stated, fails: \<open>DD\<close> and \<open>DB\<close> are slot codes of the plain intransitive verb
  (rendering normalises both to \<open>DD\<close>), and a template with the sentinel \<open>E\<close> keeps
  both as single slots.
\<close>

theorem every_intransitive_code_expands_counterexample:
  "isPartOfSpeech (js ''DD'') \<and> normalizePartOfSpeech (js ''DD'') = Some (js ''DD'')
   \<and> isPartOfSpeech (js ''DB'') \<and> normalizePartOfSpeech (js ''DB'') = Some (js ''DD'')
   \<and> limitedRhyme exPlain = js ''E''
   \<and> processStructureElements (Some exPlain) True None
       = Inr \<lparr>wCompoundStructureCount = 0, wPunctuation = [12290],
              wElements = [js ''DD'', js ''DB''] @ replicate 28 []\<rparr>"
proof -
  have a: "isPartOfSpeech (js ''DD'')" "isPartOfSpeech (js ''DB'')"
    by (simp_all add: isPartOfSpeech_def tag_evals string_evals)
  have b: "normalizePartOfSpeech (js ''DD'') = Some (js ''DD'')"
    "normalizePartOfSpeech (js ''DB'') = Some (js ''DD'')"
    by (simp_all add: normalizePartOfSpeech_def tag_evals string_evals)
  have c: "processStructureElements (Some exPlain) True None
       = Inr \<lparr>wCompoundStructureCount = 0, wPunctuation = [12290],
              wElements = [js ''DD'', js ''DB''] @ replicate 28 []\<rparr>"
    by (simp add: processStructureElements_Some exPlain_def expandElement_def padTo30_def
        string_evals)
  from a b c show ?thesis by (simp add: exPlain_def)
qed

text \<open>
  C3, amended: the working structure holds, for each slot code of the template up to the
  first empty one among the first 27, what \<open>expandElement\<close> gives for it; a slot code
  gives the three slots \<open>DV\<close>, U+7740, \<open>DO\<close> if and only if it is the spelling \<open>Dd\<close>
  and the template's \<open>limitedRhyme\<close> is \<open>E\<close>, and exactly one slot otherwise.
\<close>

theorem compound_expansion_rule:
  "processStructureElements (Some st) nr scheme =
     Inr \<lparr>wCompoundStructureCount = compoundStructureCount st,
          wPunctuation = punctuation st,
          wElements = padTo30 (concat (map (expandElement (limitedRhyme st))
                        (takeWhile (\<lambda>e. e \<noteq> []) (take 27 (elements st)))))\<rparr>
   \<and> (expandElement lr e = [js ''DV'', zhe, js ''DO'']) = (e = js ''Dd'' \<and> lr = js ''E'')
   \<and> length (expandElement lr e) = (if e = js ''Dd'' \<and> lr = js ''E'' then 3 else 1)"
  by (simp only: processStructureElements_Some expandElement_three expandElement_length simp_thms)

theorem compound_expansion_rule_witness:
  "processStructureElements (Some exCompound) False None
     = Inr \<lparr>wCompoundStructureCount = 0, wPunctuation = [12290],
            wElements = [js ''MM'', js ''DV'', zhe, js ''DO''] @ replicate 26 []\<rparr>
   \<and> length (expandElement (js ''E'') (js ''Dd'')) = 3
   \<and> length (expandElement (js ''a'') (js ''Dd'')) = 1"
proof -
  from compound_expansion_rule [of exCompound False None "js ''E''" "js ''Dd''"]
  have "processStructureElements (Some exCompound) False None
     = Inr \<lparr>wCompoundStructureCount = 0, wPunctuation = [12290],
            wElements = [js ''MM'', js ''DV'', zhe, js ''DO''] @ replicate 26 []\<rparr>"
    and "length (expandElement (js ''E'') (js ''Dd'')) = 3"
    by (simp_all add: exCompound_def expandElement_def padTo30_def string_evals)
  moreover from compound_expansion_rule [of exCompound False None "js ''a''" "js ''Dd''"]
  have "length (expandElement (js ''a'') (js ''Dd'')) = 1"
    by (simp add: js_def)
  ultimately show ?thesis by simp
qed

lemma pad_not_tag: "\<not> isPartOfSpeech []" "\<not> isPartOfSpeech zhe"
  by (simp_all add: isPartOfSpeech_def tag_evals string_evals zhe_def)

lemma tag_kept: "e \<in> set partOfSpeechTags \<Longrightarrow> expandElement lr e = [e]"
  by (auto simp: partOfSpeechTags_def expandElement_def string_evals)

lemma Dd_is_code: "isPartOfSpeech (js ''Dd'')"
  by (simp add: isPartOfSpeech_def tag_evals string_evals)

lemma Dd_upper_initial: "[js ''Dd'' ! 0] \<noteq> toLowerCase [js ''Dd'' ! 0]"
  by (simp add: string_evals)

lemma compound_tags: "js ''DV'' \<in> set partOfSpeechTags" "js ''DO'' \<in> set partOfSpeechTags"
  by (simp_all add: partOfSpeechTags_def)

lemma expandElement_canonical:
  assumes "e \<in> set partOfSpeechTags
         \<or> (length e = 2 \<and> [e ! 0] = toLowerCase [e ! 0] \<and> toUpperCase e \<in> set partOfSpeechTags)
         \<or> (e = js ''Dd'' \<and> lr = js ''E'')
         \<or> (\<not> isPartOfSpeech e \<and> \<not> isPartOfSpeech (toUpperCase e))"
    and "x \<in> set (expandElement lr e)" and "isPartOfSpeech x"
  shows "x \<in> set partOfSpeechTags"
proof -
  consider (tag) "e \<in> set partOfSpeechTags"
    | (low) "length e = 2" "[e ! 0] = toLowerCase [e ! 0]" "toUpperCase e \<in> set partOfSpeechTags"
    | (cmp) "e = js ''Dd''" "lr = js ''E''"
    | (lit) "\<not> isPartOfSpeech e" "\<not> isPartOfSpeech (toUpperCase e)"
    using assms(1) by blast
  then show ?thesis
  proof cases
    case tag
    with assms(2) show ?thesis by (simp add: tag_kept)
  next
    case low
    from low(2) Dd_upper_initial have "e \<noteq> js ''Dd''" by auto
    with low assms(2) show ?thesis by (simp add: expandElement_def)
  next
    case cmp
    with assms(2) have "x = js ''DV'' \<or> x = zhe \<or> x = js ''DO''"
      by (simp add: expandElement_def)
    with assms(3) pad_not_tag(2) compound_tags show ?thesis by auto
  next
    case lit
    from lit(1) Dd_is_code have "e \<noteq> js ''Dd''" by auto
    with assms(2) have "x = e \<or> x = toUpperCase e"
      by (auto simp: expandElement_def split: if_splits)
    with lit assms(3) show ?thesis by auto
  qed
qed

text \<open>
  C4, as stated, fails: a template with all 27 slots filled, \<open>Mm\<close> followed by 26 times
  \<open>Dd\<close> under the sentinel \<open>E\<close>, gives 79 elements, the first of which is the part of
  speech code \<open>Mm\<close>, not a canonical tag.
\<close>

theorem fixed_capacity_canonical_counterexample:
  "length (elements exLong) = 27 \<and> [] \<notin> set (elements exLong)
   \<and> processStructureElements (Some exLong) True None
       = Inr \<lparr>wCompoundStructureCount = 0, wPunctuation = [12290],
              wElements = js ''Mm'' # concat (replicate 26 [js ''DV'', zhe, js ''DO''])\<rparr>
   \<and> length (js ''Mm'' # concat (replicate 26 [js ''DV'', zhe, js ''DO''])) = 79
   \<and> isPartOfSpeech (js ''Mm'') \<and> js ''Mm'' \<notin> set partOfSpeechTags"
proof -
  have a: "length (elements exLong) = 27" "[] \<notin> set (elements exLong)"
    by (simp_all add: exLong_def js_def)
  have len: "length (js ''Mm'' # concat (replicate 26 [js ''DV'', zhe, js ''DO''])) = 79"
    by (simp add: length_concat sum_list_replicate)
  have tw: "takeWhile (\<lambda>e. e \<noteq> []) (take 27 (elements exLong)) = js ''Mm'' # replicate 26 (js ''Dd'')"
    by (simp add: exLong_def js_def)
  have ex: "expandElement (js ''E'') (js ''Mm'') = [js ''Mm'']"
    "expandElement (js ''E'') (js ''Dd'') = [js ''DV'', zhe, js ''DO'']"
    by (simp_all add: expandElement_def string_evals)
  have b: "processStructureElements (Some exLong) True None
       = Inr \<lparr>wCompoundStructureCount = 0, wPunctuation = [12290],
              wElements = js ''Mm'' # concat (replicate 26 [js ''DV'', zhe, js ''DO''])\<rparr>"
    unfolding processStructureElements_Some tw
    using len by (simp add: exLong_def ex padTo30_def)
  have c: "isPartOfSpeech (js ''Mm'')" "js ''Mm'' \<notin> set partOfSpeechTags"
    by (simp_all add: isPartOfSpeech_def tag_evals string_evals)
  from a b len c show ?thesis by simp
qed

text \<open>
  C4, amended: for every template, \<open>processStructureElements\<close> returns a working structure
  with the template's punctuation and compound count whose elements array has length
  \<open>max 30 m\<close>, where \<open>m\<close> is the number of slot codes read plus two for each \<open>Dd\<close> under
  the sentinel \<open>E\<close> (so at least 30, and exactly 30 when \<open>m\<close> is at most 30). When every
  slot code read is a canonical tag, a spelling of a canonical tag in two code units that
  begins with a lowercase letter, \<open>Dd\<close> under the sentinel, or a literal that is no part of
  speech code in either case, then every part of speech code of the result is a canonical
  tag.
\<close>

theorem working_structure_elements:
  "\<exists>ws. processStructureElements (Some st) nr scheme = Inr ws
     \<and> wPunctuation ws = punctuation st
     \<and> wCompoundStructureCount ws = compoundStructureCount st
     \<and> length (wElements ws)
         = max 30 (length (takeWhile (\<lambda>e. e \<noteq> []) (take 27 (elements st)))
                   + 2 * (if limitedRhyme st = js ''E''
                          then count_list (takeWhile (\<lambda>e. e \<noteq> []) (take 27 (elements st)))
                                 (js ''Dd'')
                          else 0))
     \<and> ((\<forall>e\<in>set (takeWhile (\<lambda>e. e \<noteq> []) (take 27 (elements st))).
            e \<in> set partOfSpeechTags
            \<or> (length e = 2 \<and> [e ! 0] = toLowerCase [e ! 0]
                \<and> toUpperCase e \<in> set partOfSpeechTags)
            \<or> (e = js ''Dd'' \<and> limitedRhyme st = js ''E'')
            \<or> (\<not> isPartOfSpeech e \<and> \<not> isPartOfSpeech (toUpperCase e)))
          \<longrightarrow> (\<forall>x\<in>set (wElements ws). isPartOfSpeech x \<longrightarrow> x \<in> set partOfSpeechTags))"
proof -
  let ?C = "takeWhile (\<lambda>e. e \<noteq> []) (take 27 (elements st))"
  let ?body = "concat (map (expandElement (limitedRhyme st)) ?C)"
  let ?ws = "\<lparr>wCompoundStructureCount = compoundStructureCount st,
              wPunctuation = punctuation st, wElements = padTo30 ?body\<rparr>"
  have r: "processStructureElements (Some st) nr scheme = Inr ?ws"
    by (rule processStructureElements_Some)
  have len: "length (wElements ?ws)
      = max 30 (length ?C + 2 * (if limitedRhyme st = js ''E''
                                 then count_list ?C (js ''Dd'') else 0))"
    by (simp only: WorkingStructure.simps length_padTo30 length_concat_expand)
  have can: "\<forall>x\<in>set (wElements ?ws). isPartOfSpeech x \<longrightarrow> x \<in> set partOfSpeechTags"
    if h: "\<forall>e\<in>set ?C.
            e \<in> set partOfSpeechTags
            \<or> (length e = 2 \<and> [e ! 0] = toLowerCase [e ! 0]
                \<and> toUpperCase e \<in> set partOfSpeechTags)
            \<or> (e = js ''Dd'' \<and> limitedRhyme st = js ''E'')
            \<or> (\<not> isPartOfSpeech e \<and> \<not> isPartOfSpeech (toUpperCase e))"
  proof (intro ballI impI)
    fix x assume x: "x \<in> set (wElements ?ws)" and p: "isPartOfSpeech x"
    from x have "x \<in> set ?body \<or> x = []" by (auto simp only: WorkingStructure.simps padTo30_def set_append set_replicate_conv_if split: if_splits)
    with p pad_not_tag(1) have "x \<in> set ?body" by auto
    then obtain e where e: "e \<in> set ?C" and xe: "x \<in> set (expandElement (limitedRhyme st) e)"
      by auto
    from h e have "e \<in> set partOfSpeechTags
            \<or> (length e = 2 \<and> [e ! 0] = toLowerCase [e ! 0]
                \<and> toUpperCase e \<in> set partOfSpeechTags)
            \<or> (e = js ''Dd'' \<and> limitedRhyme st = js ''E'')
            \<or> (\<not> isPartOfSpeech e \<and> \<not> isPartOfSpeech (toUpperCase e))"
      by (rule bspec)
    from this xe p show "x \<in> set partOfSpeechTags" by (rule expandElement_canonical)
  qed
  have p: "wPunctuation ?ws = punctuation st"
    and c: "wCompoundStructureCount ?ws = compoundStructureCount st"
    by simp_all
  show ?thesis
    by (intro exI [of _ ?ws] conjI impI r p c len can)
qed

theorem working_structure_elements_witness:
  "processStructureElements (Some exCompound) False None
     = Inr \<lparr>wCompoundStructureCount = 0, wPunctuation = [12290],
            wElements = [js ''MM'', js ''DV'', zhe, js ''DO''] @ replicate 26 []\<rparr>
   \<and> length ([js ''MM'', js ''DV'', zhe, js ''DO''] @ replicate 26 ([] :: jsstring)) = 30
   \<and> list_all (\<lambda>x. isPartOfSpeech x \<longrightarrow> x \<in> set partOfSpeechTags)
        ([js ''MM'', js ''DV'', zhe, js ''DO''] @ replicate 26 [])"
proof -
  let ?W = "\<lparr>wCompoundStructureCount = 0, wPunctuation = [12290],
            wElements = [js ''MM'', js ''DV'', zhe, js ''DO''] @ replicate 26 []\<rparr>"
  have ev: "processStructureElements (Some exCompound) False None = Inr ?W"
    by (simp add: processStructureElements_Some exCompound_def expandElement_def padTo30_def
        string_evals)
  have C: "takeWhile (\<lambda>e. e \<noteq> []) (take 27 (elements exCompound)) = [js ''mm'', js ''Dd'']"
    by (simp add: exCompound_def js_def)
  have h: "\<forall>e\<in>set (takeWhile (\<lambda>e. e \<noteq> []) (take 27 (elements exCompound))).
            e \<in> set partOfSpeechTags
            \<or> (length e = 2 \<and> [e ! 0] = toLowerCase [e ! 0]
                \<and> toUpperCase e \<in> set partOfSpeechTags)
            \<or> (e = js ''Dd'' \<and> limitedRhyme exCompound = js ''E'')
            \<or> (\<not> isPartOfSpeech e \<and> \<not> isPartOfSpeech (toUpperCase e))"
    unfolding C by (simp add: exCompound_def partOfSpeechTags_def string_evals)
  from working_structure_elements [of exCompound False None]
  obtain ws where ws: "processStructureElements (Some exCompound) False None = Inr ws"
    and imp: "(\<forall>e\<in>set (takeWhile (\<lambda>e. e \<noteq> []) (take 27 (elements exCompound))).
            e \<in> set partOfSpeechTags
            \<or> (length e = 2 \<and> [e ! 0] = toLowerCase [e ! 0]
                \<and> toUpperCase e \<in> set partOfSpeechTags)
            \<or> (e = js ''Dd'' \<and> limitedRhyme exCompound = js ''E'')
            \<or> (\<not> isPartOfSpeech e \<and> \<not> isPartOfSpeech (toUpperCase e)))
          \<longrightarrow> (\<forall>x\<in>set (wElements ws). isPartOfSpeech x \<longrightarrow> x \<in> set partOfSpeechTags)"
    by blast
  from ws ev have "ws = ?W" by simp
  moreover from imp h
  have "\<forall>x\<in>set (wElements ws). isPartOfSpeech x \<longrightarrow> x \<in> set partOfSpeechTags"
    by (rule mp)
  ultimately
  have "\<forall>x\<in>set (wElements ?W). isPartOfSpeech x \<longrightarrow> x \<in> set partOfSpeechTags"
    by simp
  then have "list_all (\<lambda>x. isPartOfSpeech x \<longrightarrow> x \<in> set partOfSpeechTags)
        ([js ''MM'', js ''DV'', zhe, js ''DO''] @ replicate 26 [])"
    by (simp only: list_all_iff WorkingStructure.simps)
  with ev show ?thesis by simp
qed

section \<open>Structure generator: template selection\<close>

lemma jsIndex_draw:
  "structures \<noteq> [] \<Longrightarrow>
   jsIndex structures (randomIndex rs k (length structures))
     = Some (structures ! randomIndex rs k (length structures))"
  by (simp add: jsIndex_def randomIndex_less)

lemma jsIndex_first: "structures \<noteq> [] \<Longrightarrow> jsIndex structures 0 = Some (hd structures)"
  by (cases structures) (simp_all add: jsIndex_def)

lemma selectQuietLoop_result:
  assumes ne: "structures \<noteq> []"
  shows "\<exists>s k'. selectQuietLoop structures nr scheme rs attempts k = (Inr (Some s), k')
          \<and> k' \<le> k + (100 - attempts)
          \<and> ((k < k' \<and> s = structures ! randomIndex rs (k' - 1) (length structures)
                \<and> isQuiet s \<and> \<not> rhymeRejected nr scheme s
                \<and> (\<forall>j. k \<le> j \<and> j < k' - 1 \<longrightarrow>
                      (\<not> isQuiet (structures ! randomIndex rs j (length structures))
                       \<or> rhymeRejected nr scheme (structures ! randomIndex rs j (length structures)))))
             \<or> (k' = k + (100 - attempts) \<and> s = hd structures
                \<and> (\<forall>j. k \<le> j \<and> j < k' \<longrightarrow>
                      (\<not> isQuiet (structures ! randomIndex rs j (length structures))
                       \<or> rhymeRejected nr scheme (structures ! randomIndex rs j (length structures))))))"
  using ne
proof (induction structures nr scheme rs attempts k rule: selectQuietLoop.induct)
  case (1 structures nr scheme rs attempts k)
  let ?d = "structures ! randomIndex rs k (length structures)"
  note draw = jsIndex_draw [OF "1.prems", of rs k]
  show ?case
  proof (cases "attempts < 100")
    case False
    then show ?thesis
      using "1.prems" by (auto simp: selectQuietLoop.simps [of structures nr scheme rs attempts k]
          jsIndex_first)
  next
    case True
    show ?thesis
    proof (cases "\<not> isQuiet ?d \<or> rhymeRejected nr scheme ?d")
      case rej: True
      then have unf: "selectQuietLoop structures nr scheme rs attempts k
          = selectQuietLoop structures nr scheme rs (attempts + 1) (Suc k)"
        using True draw by (auto simp: selectQuietLoop.simps [of structures nr scheme rs attempts k])
      have "\<exists>s k'. selectQuietLoop structures nr scheme rs (attempts + 1) (Suc k) = (Inr (Some s), k')
          \<and> k' \<le> Suc k + (100 - (attempts + 1))
          \<and> ((Suc k < k' \<and> s = structures ! randomIndex rs (k' - 1) (length structures)
                \<and> isQuiet s \<and> \<not> rhymeRejected nr scheme s
                \<and> (\<forall>j. Suc k \<le> j \<and> j < k' - 1 \<longrightarrow>
                      (\<not> isQuiet (structures ! randomIndex rs j (length structures))
                       \<or> rhymeRejected nr scheme (structures ! randomIndex rs j (length structures)))))
             \<or> (k' = Suc k + (100 - (attempts + 1)) \<and> s = hd structures
                \<and> (\<forall>j. Suc k \<le> j \<and> j < k' \<longrightarrow>
                      (\<not> isQuiet (structures ! randomIndex rs j (length structures))
                       \<or> rhymeRejected nr scheme (structures ! randomIndex rs j (length structures))))))"
      proof (cases "\<not> isQuiet ?d")
        case True
        from "1.IH"(1) [OF \<open>attempts < 100\<close> draw True "1.prems"] show ?thesis .
      next
        case False
        with rej have r: "rhymeRejected nr scheme ?d" by simp
        from "1.IH"(2) [OF \<open>attempts < 100\<close> draw False r "1.prems"] show ?thesis .
      qed
      then obtain s k' where res: "selectQuietLoop structures nr scheme rs (attempts + 1) (Suc k) = (Inr (Some s), k')"
        and bound: "k' \<le> Suc k + (100 - (attempts + 1))"
        and alt: "(Suc k < k' \<and> s = structures ! randomIndex rs (k' - 1) (length structures)
                \<and> isQuiet s \<and> \<not> rhymeRejected nr scheme s
                \<and> (\<forall>j. Suc k \<le> j \<and> j < k' - 1 \<longrightarrow>
                      (\<not> isQuiet (structures ! randomIndex rs j (length structures))
                       \<or> rhymeRejected nr scheme (structures ! randomIndex rs j (length structures)))))
             \<or> (k' = Suc k + (100 - (attempts + 1)) \<and> s = hd structures
                \<and> (\<forall>j. Suc k \<le> j \<and> j < k' \<longrightarrow>
                      (\<not> isQuiet (structures ! randomIndex rs j (length structures))
                       \<or> rhymeRejected nr scheme (structures ! randomIndex rs j (length structures)))))"
        by blast
      have ext: "(\<forall>j. Suc k \<le> j \<and> j < m \<longrightarrow>
                      (\<not> isQuiet (structures ! randomIndex rs j (length structures))
                       \<or> rhymeRejected nr scheme (structures ! randomIndex rs j (length structures))))
            \<Longrightarrow> (\<forall>j. k \<le> j \<and> j < m \<longrightarrow>
                      (\<not> isQuiet (structures ! randomIndex rs j (length structures))
                       \<or> rhymeRejected nr scheme (structures ! randomIndex rs j (length structures))))" for m
        using rej by (metis Suc_leI le_neq_implies_less)
      from alt show ?thesis
      proof
        assume a: "Suc k < k' \<and> s = structures ! randomIndex rs (k' - 1) (length structures)
                \<and> isQuiet s \<and> \<not> rhymeRejected nr scheme s
                \<and> (\<forall>j. Suc k \<le> j \<and> j < k' - 1 \<longrightarrow>
                      (\<not> isQuiet (structures ! randomIndex rs j (length structures))
                       \<or> rhymeRejected nr scheme (structures ! randomIndex rs j (length structures))))"
        then have "\<forall>j. k \<le> j \<and> j < k' - 1 \<longrightarrow>
                      (\<not> isQuiet (structures ! randomIndex rs j (length structures))
                       \<or> rhymeRejected nr scheme (structures ! randomIndex rs j (length structures)))"
          using ext by blast
        moreover from bound True have le: "k' \<le> k + (100 - attempts)" by arith
        moreover from a have "k < k'" by arith
        ultimately show ?thesis
          unfolding unf using a
          by (intro exI [of _ s] exI [of _ k'] conjI res le disjI1) blast+
      next
        assume b: "k' = Suc k + (100 - (attempts + 1)) \<and> s = hd structures
                \<and> (\<forall>j. Suc k \<le> j \<and> j < k' \<longrightarrow>
                      (\<not> isQuiet (structures ! randomIndex rs j (length structures))
                       \<or> rhymeRejected nr scheme (structures ! randomIndex rs j (length structures))))"
        then have "\<forall>j. k \<le> j \<and> j < k' \<longrightarrow>
                      (\<not> isQuiet (structures ! randomIndex rs j (length structures))
                       \<or> rhymeRejected nr scheme (structures ! randomIndex rs j (length structures)))"
          using ext by blast
        moreover from b True have eq: "k' = k + (100 - attempts)" by arith
        moreover from eq have le: "k' \<le> k + (100 - attempts)" by simp
        ultimately show ?thesis
          unfolding unf using b
          by (intro exI [of _ s] exI [of _ k'] conjI res le disjI2) blast+
      qed
    next
      case acc: False
      then have "selectQuietLoop structures nr scheme rs attempts k = (Inr (Some ?d), Suc k)"
        using True draw by (simp add: selectQuietLoop.simps [of structures nr scheme rs attempts k])
      with acc True show ?thesis by (intro exI [of _ ?d] exI [of _ "Suc k"]) auto
    qed
  qed
qed

lemma selectBoldLoop_result:
  assumes ne: "structures \<noteq> []"
  shows "\<exists>s k'. selectBoldLoop structures nr scheme rs attempts k = (Inr (Some s), k')
          \<and> k' \<le> k + (100 - attempts)
          \<and> ((k < k' \<and> s = structures ! randomIndex rs (k' - 1) (length structures)
                \<and> \<not> rhymeRejected nr scheme s
                \<and> (\<forall>j. k \<le> j \<and> j < k' - 1 \<longrightarrow>
                      rhymeRejected nr scheme (structures ! randomIndex rs j (length structures))))
             \<or> (k' = k + (100 - attempts) \<and> s = hd structures
                \<and> (\<forall>j. k \<le> j \<and> j < k' \<longrightarrow>
                      rhymeRejected nr scheme (structures ! randomIndex rs j (length structures)))))"
  using ne
proof (induction structures nr scheme rs attempts k rule: selectBoldLoop.induct)
  case (1 structures nr scheme rs attempts k)
  let ?d = "structures ! randomIndex rs k (length structures)"
  note draw = jsIndex_draw [OF "1.prems", of rs k]
  show ?case
  proof (cases "attempts < 100")
    case False
    then show ?thesis
      using "1.prems" by (auto simp: selectBoldLoop.simps [of structures nr scheme rs attempts k]
          jsIndex_first)
  next
    case True
    show ?thesis
    proof (cases "rhymeRejected nr scheme ?d")
      case rej: True
      then have unf: "selectBoldLoop structures nr scheme rs attempts k
          = selectBoldLoop structures nr scheme rs (attempts + 1) (Suc k)"
        using True draw by (auto simp: selectBoldLoop.simps [of structures nr scheme rs attempts k])
      from "1.IH" [OF True draw rej "1.prems"]
      obtain s k' where res: "selectBoldLoop structures nr scheme rs (attempts + 1) (Suc k) = (Inr (Some s), k')"
        and bound: "k' \<le> Suc k + (100 - (attempts + 1))"
        and alt: "(Suc k < k' \<and> s = structures ! randomIndex rs (k' - 1) (length structures)
                \<and> \<not> rhymeRejected nr scheme s
                \<and> (\<forall>j. Suc k \<le> j \<and> j < k' - 1 \<longrightarrow>
                      rhymeRejected nr scheme (structures ! randomIndex rs j (length structures))))
             \<or> (k' = Suc k + (100 - (attempts + 1)) \<and> s = hd structures
                \<and> (\<forall>j. Suc k \<le> j \<and> j < k' \<longrightarrow>
                      rhymeRejected nr scheme (structures ! randomIndex rs j (length structures))))"
        by blast
      have ext: "(\<forall>j. Suc k \<le> j \<and> j < m \<longrightarrow>
                      rhymeRejected nr scheme (structures ! randomIndex rs j (length structures)))
            \<Longrightarrow> (\<forall>j. k \<le> j \<and> j < m \<longrightarrow>
                      rhymeRejected nr scheme (structures ! randomIndex rs j (length structures)))" for m
        using rej by (metis Suc_leI le_neq_implies_less)
      from alt show ?thesis
      proof
        assume a: "Suc k < k' \<and> s = structures ! randomIndex rs (k' - 1) (length structures)
                \<and> \<not> rhymeRejected nr scheme s
                \<and> (\<forall>j. Suc k \<le> j \<and> j < k' - 1 \<longrightarrow>
                      rhymeRejected nr scheme (structures ! randomIndex rs j (length structures)))"
        then have "\<forall>j. k \<le> j \<and> j < k' - 1 \<longrightarrow>
                      rhymeRejected nr scheme (structures ! randomIndex rs j (length structures))"
          using ext by blast
        moreover from bound True have le: "k' \<le> k + (100 - attempts)" by arith
        moreover from a have "k < k'" by arith
        ultimately show ?thesis
          unfolding unf using a
          by (intro exI [of _ s] exI [of _ k'] conjI res le disjI1) blast+
      next
        assume b: "k' = Suc k + (100 - (attempts + 1)) \<and> s = hd structures
                \<and> (\<forall>j. Suc k \<le> j \<and> j < k' \<longrightarrow>
                      rhymeRejected nr scheme (structures ! randomIndex rs j (length structures)))"
        then have "\<forall>j. k \<le> j \<and> j < k' \<longrightarrow>
                      rhymeRejected nr scheme (structures ! randomIndex rs j (length structures))"
          using ext by blast
        moreover from b True have eq: "k' = k + (100 - attempts)" by arith
        moreover from eq have le: "k' \<le> k + (100 - attempts)" by simp
        ultimately show ?thesis
          unfolding unf using b
          by (intro exI [of _ s] exI [of _ k'] conjI res le disjI2) blast+
      qed
    next
      case acc: False
      then have "selectBoldLoop structures nr scheme rs attempts k = (Inr (Some ?d), Suc k)"
        using True draw by (simp add: selectBoldLoop.simps [of structures nr scheme rs attempts k])
      with acc True show ?thesis by (intro exI [of _ ?d] exI [of _ "Suc k"]) auto
    qed
  qed
qed

lemma drawn_member:
  "structures \<noteq> [] \<Longrightarrow> structures ! randomIndex rs j (length structures) \<in> set structures"
  by (simp add: randomIndex_less)

text \<open>
  C5, as stated, fails on the empty table: the drawn template is \<^verbatim>\<open>undefined\<close>, and the
  quiet selection (reading its elements) and the bold selection under a rhyme (reading its
  compound count) throw a \<^verbatim>\<open>TypeError\<close>; the bold selection without a rhyme returns
  \<^verbatim>\<open>undefined\<close>.
\<close>

theorem selection_on_empty_table_counterexample:
  "selectQuietStructure [] False None (\<lambda>i. 0) 0 = (Inl TypeError, 1)
   \<and> selectBoldStructure [] True (Some (js ''a'')) (\<lambda>i. 0) 0 = (Inl TypeError, 1)
   \<and> selectBoldStructure [] False None (\<lambda>i. 0) 0 = (Inr None, 1)"
  by (simp add: selectQuietStructure_def selectBoldStructure_def selectQuietLoop.simps
      selectBoldLoop.simps jsIndex_def randomIndex_def truthy_def js_def)

text \<open>
  C5, amended: on a table that is not empty, \<open>selectQuietStructure\<close> and
  \<open>selectBoldStructure\<close> return a template of the table after at most 100 draws, without
  an error. The template is either the last one drawn, which passes the rejection rules of
  the style and the rhyme while every draw before it was rejected, or, all 100 draws being
  rejected, the first template of the table.
\<close>

theorem template_selection_bounded:
  assumes "structures \<noteq> []"
  shows "(\<exists>s k'. selectQuietStructure structures nr scheme rs k = (Inr (Some s), k')
          \<and> k' \<le> k + 100 \<and> s \<in> set structures
          \<and> ((k < k' \<and> s = structures ! randomIndex rs (k' - 1) (length structures)
                \<and> isQuiet s \<and> \<not> rhymeRejected nr scheme s
                \<and> (\<forall>j. k \<le> j \<and> j < k' - 1 \<longrightarrow>
                      (\<not> isQuiet (structures ! randomIndex rs j (length structures))
                       \<or> rhymeRejected nr scheme (structures ! randomIndex rs j (length structures)))))
             \<or> (k' = k + 100 \<and> s = hd structures
                \<and> (\<forall>j. k \<le> j \<and> j < k' \<longrightarrow>
                      (\<not> isQuiet (structures ! randomIndex rs j (length structures))
                       \<or> rhymeRejected nr scheme (structures ! randomIndex rs j (length structures)))))))
       \<and> (\<exists>s k'. selectBoldStructure structures nr scheme rs k = (Inr (Some s), k')
          \<and> k' \<le> k + 100 \<and> s \<in> set structures
          \<and> ((k < k' \<and> s = structures ! randomIndex rs (k' - 1) (length structures)
                \<and> \<not> rhymeRejected nr scheme s
                \<and> (\<forall>j. k \<le> j \<and> j < k' - 1 \<longrightarrow>
                      rhymeRejected nr scheme (structures ! randomIndex rs j (length structures))))
             \<or> (k' = k + 100 \<and> s = hd structures
                \<and> (\<forall>j. k \<le> j \<and> j < k' \<longrightarrow>
                      rhymeRejected nr scheme (structures ! randomIndex rs j (length structures))))))"
proof (rule conjI)
  from selectQuietLoop_result [OF assms, of nr scheme rs 0 k]
  obtain s k' where r: "selectQuietLoop structures nr scheme rs 0 k = (Inr (Some s), k')"
    and b: "k' \<le> k + (100 - 0)"
    and alt: "(k < k' \<and> s = structures ! randomIndex rs (k' - 1) (length structures)
                \<and> isQuiet s \<and> \<not> rhymeRejected nr scheme s
                \<and> (\<forall>j. k \<le> j \<and> j < k' - 1 \<longrightarrow>
                      (\<not> isQuiet (structures ! randomIndex rs j (length structures))
                       \<or> rhymeRejected nr scheme (structures ! randomIndex rs j (length structures)))))
             \<or> (k' = k + (100 - 0) \<and> s = hd structures
                \<and> (\<forall>j. k \<le> j \<and> j < k' \<longrightarrow>
                      (\<not> isQuiet (structures ! randomIndex rs j (length structures))
                       \<or> rhymeRejected nr scheme (structures ! randomIndex rs j (length structures)))))"
    by blast
  from alt assms have mem: "s \<in> set structures"
    using drawn_member [OF assms, of rs "k' - 1"] by auto
  from r have r': "selectQuietStructure structures nr scheme rs k = (Inr (Some s), k')"
    by (simp add: selectQuietStructure_def)
  from b have b': "k' \<le> k + 100" by simp
  from alt have alt': "(k < k' \<and> s = structures ! randomIndex rs (k' - 1) (length structures)
                \<and> isQuiet s \<and> \<not> rhymeRejected nr scheme s
                \<and> (\<forall>j. k \<le> j \<and> j < k' - 1 \<longrightarrow>
                      (\<not> isQuiet (structures ! randomIndex rs j (length structures))
                       \<or> rhymeRejected nr scheme (structures ! randomIndex rs j (length structures)))))
             \<or> (k' = k + 100 \<and> s = hd structures
                \<and> (\<forall>j. k \<le> j \<and> j < k' \<longrightarrow>
                      (\<not> isQuiet (structures ! randomIndex rs j (length structures))
                       \<or> rhymeRejected nr scheme (structures ! randomIndex rs j (length structures)))))"
    by (simp only: diff_zero)
  show "\<exists>s k'. selectQuietStructure structures nr scheme rs k = (Inr (Some s), k')
          \<and> k' \<le> k + 100 \<and> s \<in> set structures
          \<and> ((k < k' \<and> s = structures ! randomIndex rs (k' - 1) (length structures)
                \<and> isQuiet s \<and> \<not> rhymeRejected nr scheme s
                \<and> (\<forall>j. k \<le> j \<and> j < k' - 1 \<longrightarrow>
                      (\<not> isQuiet (structures ! randomIndex rs j (length structures))
                       \<or> rhymeRejected nr scheme (structures ! randomIndex rs j (length structures)))))
             \<or> (k' = k + 100 \<and> s = hd structures
                \<and> (\<forall>j. k \<le> j \<and> j < k' \<longrightarrow>
                      (\<not> isQuiet (structures ! randomIndex rs j (length structures))
                       \<or> rhymeRejected nr scheme (structures ! randomIndex rs j (length structures))))))"
    by (intro exI [of _ s] exI [of _ k'] conjI r' b' mem alt')
next
  from selectBoldLoop_result [OF assms, of nr scheme rs 0 k]
  obtain s k' where r: "selectBoldLoop structures nr scheme rs 0 k = (Inr (Some s), k')"
    and b: "k' \<le> k + (100 - 0)"
    and alt: "(k < k' \<and> s = structures ! randomIndex rs (k' - 1) (length structures)
                \<and> \<not> rhymeRejected nr scheme s
                \<and> (\<forall>j. k \<le> j \<and> j < k' - 1 \<longrightarrow>
                      rhymeRejected nr scheme (structures ! randomIndex rs j (length structures))))
             \<or> (k' = k + (100 - 0) \<and> s = hd structures
                \<and> (\<forall>j. k \<le> j \<and> j < k' \<longrightarrow>
                      rhymeRejected nr scheme (structures ! randomIndex rs j (length structures))))"
    by blast
  from alt assms have mem: "s \<in> set structures"
    using drawn_member [OF assms, of rs "k' - 1"] by auto
  from r have r': "selectBoldStructure structures nr scheme rs k = (Inr (Some s), k')"
    by (simp add: selectBoldStructure_def)
  from b have b': "k' \<le> k + 100" by simp
  from alt have alt': "(k < k' \<and> s = structures ! randomIndex rs (k' - 1) (length structures)
                \<and> \<not> rhymeRejected nr scheme s
                \<and> (\<forall>j. k \<le> j \<and> j < k' - 1 \<longrightarrow>
                      rhymeRejected nr scheme (structures ! randomIndex rs j (length structures))))
             \<or> (k' = k + 100 \<and> s = hd structures
                \<and> (\<forall>j. k \<le> j \<and> j < k' \<longrightarrow>
                      rhymeRejected nr scheme (structures ! randomIndex rs j (length structures))))"
    by (simp only: diff_zero)
  show "\<exists>s k'. selectBoldStructure structures nr scheme rs k = (Inr (Some s), k')
          \<and> k' \<le> k + 100 \<and> s \<in> set structures
          \<and> ((k < k' \<and> s = structures ! randomIndex rs (k' - 1) (length structures)
                \<and> \<not> rhymeRejected nr scheme s
                \<and> (\<forall>j. k \<le> j \<and> j < k' - 1 \<longrightarrow>
                      rhymeRejected nr scheme (structures ! randomIndex rs j (length structures))))
             \<or> (k' = k + 100 \<and> s = hd structures
                \<and> (\<forall>j. k \<le> j \<and> j < k' \<longrightarrow>
                      rhymeRejected nr scheme (structures ! randomIndex rs j (length structures)))))"
    by (intro exI [of _ s] exI [of _ k'] conjI r' b' mem alt')
qed

theorem template_selection_bounded_witness:
  "[exTemplate] \<noteq> []
   \<and> (\<exists>k'. selectQuietStructure [exTemplate] True (Some (js ''a'')) (\<lambda>i. 0) 0
              = (Inr (Some exTemplate), k') \<and> k' \<le> 100)
   \<and> (\<exists>k'. selectBoldStructure [exTemplate] True (Some (js ''e'')) (\<lambda>i. 0) 0
              = (Inr (Some exTemplate), k') \<and> k' \<le> 100)"
proof -
  have ne: "[exTemplate] \<noteq> []" by simp
  from template_selection_bounded [OF ne, of True "Some (js ''a'')" "\<lambda>i. 0" 0]
  obtain s k' where "selectQuietStructure [exTemplate] True (Some (js ''a'')) (\<lambda>i. 0) 0
      = (Inr (Some s), k')" "k' \<le> 0 + 100" "s \<in> set [exTemplate]"
    by (elim exE conjE) (rule that; assumption)
  then have q: "\<exists>k'. selectQuietStructure [exTemplate] True (Some (js ''a'')) (\<lambda>i. 0) 0
              = (Inr (Some exTemplate), k') \<and> k' \<le> 100"
    by auto
  from template_selection_bounded [OF ne, of True "Some (js ''e'')" "\<lambda>i. 0" 0]
  obtain s k' where "selectBoldStructure [exTemplate] True (Some (js ''e'')) (\<lambda>i. 0) 0
      = (Inr (Some s), k')" "k' \<le> 0 + 100" "s \<in> set [exTemplate]"
    by (elim exE conjE) (rule that; assumption)
  then have b: "\<exists>k'. selectBoldStructure [exTemplate] True (Some (js ''e'')) (\<lambda>i. 0) 0
              = (Inr (Some exTemplate), k') \<and> k' \<le> 100"
    by auto
  from ne q b show ?thesis by (intro conjI)
qed

section \<open>Line composer\<close>

lemma trim_Nil_iff: "trim s = [] \<longleftrightarrow> (\<forall>c\<in>set s. isWhiteSpace c)"
proof
  assume t: "trim s = []"
  show "\<forall>c\<in>set s. isWhiteSpace c"
  proof (rule ccontr)
    assume "\<not> (\<forall>c\<in>set s. isWhiteSpace c)"
    then have ne: "dropWhile isWhiteSpace s \<noteq> []" by auto
    then have "\<not> isWhiteSpace (hd (dropWhile isWhiteSpace s))" by (rule hd_dropWhile)
    with ne have "\<exists>c\<in>set (rev (dropWhile isWhiteSpace s)). \<not> isWhiteSpace c"
      by (metis hd_in_set set_rev)
    then have "dropWhile isWhiteSpace (rev (dropWhile isWhiteSpace s)) \<noteq> []" by auto
    with t show False by (simp add: trim_def)
  qed
next
  assume "\<forall>c\<in>set s. isWhiteSpace c"
  then have "dropWhile isWhiteSpace s = []" by auto
  then show "trim s = []" by (simp only: trim_def rev.simps dropWhile.simps)
qed

lemma trim_append_punctuation:
  assumes "trim p = p" "p \<noteq> []"
  shows "trim (b @ p) = dropWhile isWhiteSpace b @ p"
proof -
  from assms trim_ends [of p] have h: "\<not> isWhiteSpace (hd p)" and l: "\<not> isWhiteSpace (last p)"
    by auto
  from assms(2) h have p1: "dropWhile isWhiteSpace p = p" by (cases p) auto
  have 1: "dropWhile isWhiteSpace (b @ p) = dropWhile isWhiteSpace b @ p"
  proof (cases "\<forall>x\<in>set b. isWhiteSpace x")
    case True
    then have "dropWhile isWhiteSpace b = []" by auto
    moreover from True have "dropWhile isWhiteSpace (b @ p) = dropWhile isWhiteSpace p"
      by (intro dropWhile_append2) auto
    ultimately show ?thesis using p1 by simp
  next
    case False
    then show ?thesis by (auto simp: dropWhile_append)
  qed
  from assms(2) l have "dropWhile isWhiteSpace (rev p @ ys) = rev p @ ys" for ys
    by (cases "rev p") (auto simp: last_rev [symmetric] hd_rev)
  then show ?thesis by (simp add: trim_def 1)
qed

lemma endsWith_append: "endsWith (pre @ p) p"
  by (simp add: endsWith_def)

lemma endsWith_Nil: "endsWith s []"
  by (simp add: endsWith_def)

lemma trim_endsWith: "trim p = p \<Longrightarrow> endsWith (trim (b @ p)) p"
  by (cases "p = []") (simp_all add: endsWith_Nil trim_append_punctuation endsWith_append)

lemma generateLine_Inr:
  assumes "generateLine ds w opts rs k = (Inr line, k')"
  shows "\<exists>body. generateLineLoop ds w opts rs 0 [] k = (Inr body, k')
           \<and> line = trim (body @ wPunctuation w)"
proof -
  obtain r k1 where l: "generateLineLoop ds w opts rs 0 [] k = (r, k1)"
    by (cases "generateLineLoop ds w opts rs 0 [] k")
  with assms show ?thesis by (cases r) (simp_all add: generateLine_def)
qed

text \<open>
  C9, as stated, fails: with the punctuation U+3002 followed by a space, the line of the
  literal slot U+7684 is U+7684 U+3002; the trim after the punctuation removes the space, so
  the line does not end with the punctuation field.
\<close>

theorem line_ends_with_punctuation_counterexample:
  "generateLine exStore
     \<lparr>wCompoundStructureCount = 0, wPunctuation = [12290, 32],
      wElements = [30340] # replicate 29 []\<rparr>
     \<lparr>style = Bold, paragraphCount = 1, linesPerParagraph = 1, useRhyme = False,
      rhymeScheme = None\<rparr> (\<lambda>i. 0) 0
     = (Inr [30340, 12290], 0)
   \<and> \<not> endsWith [30340, 12290] [12290, 32]"
  by (simp add: generateLine_def generateLineLoop.simps elementAt_def jsIndex_def
      isPartOfSpeech_def tag_evals string_evals trim_def isWhiteSpace_def endsWith_def)

text \<open>
  C9, amended: a line returned by \<open>generateLine\<close> is the trim of the text of the slot walk
  followed by the punctuation of the structure; it ends with the punctuation whenever the
  punctuation has no white space at its ends (it is its own trim).
\<close>

theorem line_ends_with_trimmed_punctuation:
  assumes "generateLine ds w opts rs k = (Inr line, k')"
  shows "(\<exists>body. generateLineLoop ds w opts rs 0 [] k = (Inr body, k')
            \<and> line = trim (body @ wPunctuation w))
         \<and> (trim (wPunctuation w) = wPunctuation w \<longrightarrow> endsWith line (wPunctuation w))"
proof -
  from generateLine_Inr [OF assms]
  obtain body where b: "generateLineLoop ds w opts rs 0 [] k = (Inr body, k')"
    and l: "line = trim (body @ wPunctuation w)"
    by (elim exE conjE)
  from l have "trim (wPunctuation w) = wPunctuation w \<longrightarrow> endsWith line (wPunctuation w)"
    by (simp add: trim_endsWith)
  with b l show ?thesis by (intro conjI exI [of _ body])
qed

lemmas selector_evals = selectWordForElement_def selectWord_def getWordsByPartOfSpeech_def
  selectBasicWord_def selectIntransitiveVerb_def getRandomWord_def getRandomRhymingWord_def
  randomIndex_def joinVerb_def indexOf_def slash_def truthy_def nextIndex_def
  normalizePartOfSpeech_def isPartOfSpeech_def elementAt_def jsIndex_def

lemma exWorking_line:
  "generateLine exStore exWorking exOptions (\<lambda>i. 0) k
     = (Inr [33457, 30340, 36339, 33310, 12290], Suc (Suc k))"
  by (simp add: generateLine_def generateLineLoop.simps exWorking_def exOptions_def exStore_def
      exNouns_def exVerbs_def selector_evals tag_evals string_evals trim_def isWhiteSpace_def
      Let_def)

theorem line_ends_with_trimmed_punctuation_witness:
  "generateLine exStore exWorking exOptions (\<lambda>i. 0) 0
     = (Inr [33457, 30340, 36339, 33310, 12290], 2)
   \<and> trim (wPunctuation exWorking) = wPunctuation exWorking
   \<and> endsWith [33457, 30340, 36339, 33310, 12290] (wPunctuation exWorking)"
proof -
  have ev: "generateLine exStore exWorking exOptions (\<lambda>i. 0) 0
     = (Inr [33457, 30340, 36339, 33310, 12290], 2)"
    using exWorking_line [of 0] by (simp add: numeral_2_eq_2)
  have t: "trim (wPunctuation exWorking) = wPunctuation exWorking"
    by (simp add: exWorking_def trim_def isWhiteSpace_def)
  from line_ends_with_trimmed_punctuation [OF ev] t
  have "endsWith [33457, 30340, 36339, 33310, 12290] (wPunctuation exWorking)"
    by (elim conjE impE)
  with ev t show ?thesis by (intro conjI)
qed

section \<open>Poem assembly\<close>

lemma collect_Inr_nth:
  "collect xs = Inr zs \<Longrightarrow> length zs = length xs \<and> (\<forall>i<length xs. xs ! i = Inr (zs ! i))"
proof (induction xs arbitrary: zs)
  case Nil
  then show ?case by simp
next
  case (Cons x xs)
  show ?case
  proof (cases x)
    case (Inl e)
    with Cons.prems show ?thesis by simp
  next
    case (Inr y)
    with Cons.prems obtain ys where ys: "collect xs = Inr ys" and zs: "zs = y # ys"
      by (cases "collect xs") auto
    from Cons.IH [OF ys] have "length ys = length xs" and n: "\<forall>i<length xs. xs ! i = Inr (ys ! i)"
      by simp_all
    with Inr zs show ?thesis by (auto simp: nth_Cons split: nat.splits)
  qed
qed

lemma length_concat_replicate: "length (concat (replicate n xs)) = n * length xs"
  by (induction n) simp_all

lemma nth_concat_replicate:
  "s < n \<Longrightarrow> l < length xs \<Longrightarrow> concat (replicate n xs) ! (s * length xs + l) = xs ! l"
proof (induction n arbitrary: s)
  case 0
  then show ?case by simp
next
  case (Suc n)
  show ?case
  proof (cases s)
    case 0
    with Suc.prems show ?thesis by (simp add: nth_append)
  next
    case (Suc s')
    with Suc.prems have "s' < n" by simp
    from Suc.IH [OF this Suc.prems(2)]
    have "concat (replicate n xs) ! (s' * length xs + l) = xs ! l" .
    moreover have "s * length xs + l = length xs + (s' * length xs + l)"
      using Suc by simp
    ultimately show ?thesis
      by (simp only: replicate_Suc concat.simps nth_append_length_plus)
  qed
qed

lemma generateLines_nth:
  "generateLines ds opts rs wss k = (Inr lines, k') \<Longrightarrow>
     length lines = length wss
     \<and> (\<forall>i<length wss. \<exists>ka kb. generateLine ds (wss ! i) opts rs ka = (Inr (lines ! i), kb))"
proof (induction wss arbitrary: k lines k')
  case Nil
  then show ?case by simp
next
  case (Cons w wss)
  obtain r k1 where g: "generateLine ds w opts rs k = (r, k1)"
    by (cases "generateLine ds w opts rs k")
  show ?case
  proof (cases r)
    case (Inl e)
    with Cons.prems g show ?thesis by simp
  next
    case (Inr line)
    obtain r2 k2 where rest: "generateLines ds opts rs wss k1 = (r2, k2)"
      by (cases "generateLines ds opts rs wss k1")
    show ?thesis
    proof (cases r2)
      case (Inl e)
      with Cons.prems g Inr rest show ?thesis by simp
    next
      case r2: (Inr ls)
      with Cons.prems g Inr rest have lines: "lines = line # ls" by simp
      from Cons.IH rest r2 have len: "length ls = length wss"
        and nth: "\<forall>i<length wss. \<exists>ka kb. generateLine ds (wss ! i) opts rs ka = (Inr (ls ! i), kb)"
        by simp_all
      have "\<exists>ka kb. generateLine ds ((w # wss) ! i) opts rs ka = (Inr (lines ! i), kb)"
        if "i < length (w # wss)" for i
      proof (cases i)
        case 0
        with g Inr lines show ?thesis by auto
      next
        case (Suc j)
        with that nth lines show ?thesis by simp
      qed
      with len lines show ?thesis by simp
    qed
  qed
qed

lemma line_nonempty:
  assumes "line = trim (body @ p)" "trim p \<noteq> []"
  shows "line \<noteq> []"
  using assms by (auto simp: trim_Nil_iff)

lemma stanza_index_bound:
  assumes "s < pc" "l < lpp"
  shows "s * lpp + l < pc * (lpp::nat)"
proof -
  from assms(2) have "s * lpp + l < Suc s * lpp" by simp
  also from assms(1) have "Suc s * lpp \<le> pc * lpp" by (intro mult_le_mono1) simp
  finally show ?thesis .
qed

lemma createStructure_Inr:
  assumes "createStructure ds pc lpp sty scheme rs k = (Inr wss, k1)"
  shows "\<exists>temps. selectTemplates (sentenceStructures ds) lpp sty scheme [1..<lpp + 1] rs k
                    = (Inr temps, k1)
           \<and> length temps = lpp \<and> length wss = pc * lpp
           \<and> (\<forall>s<pc. \<forall>l<lpp.
                 processStructureElements (temps ! l) (shouldLineRhyme (s + 1) pc) scheme
                   = Inr (wss ! (s * lpp + l)))"
proof -
  obtain r k2 where sel:
    "selectTemplates (sentenceStructures ds) lpp sty scheme [1..<lpp + 1] rs k = (r, k2)"
    by (cases "selectTemplates (sentenceStructures ds) lpp sty scheme [1..<lpp + 1] rs k")
  note cs = createStructure_replicate [of ds pc lpp sty scheme rs k False scheme]
  show ?thesis
  proof (cases r)
    case (Inl e)
    with assms sel cs show ?thesis by simp
  next
    case (Inr temps)
    let ?row = "map (\<lambda>t. processStructureElements t False scheme) temps"
    from assms sel cs Inr have col: "collect (concat (replicate pc ?row)) = Inr wss"
      and k: "k2 = k1" by simp_all
    from sel Inr have len: "length temps = lpp"
      using selectTemplates_length by fastforce
    from collect_Inr_nth [OF col]
    have lw: "length wss = length (concat (replicate pc ?row))"
      and nth: "\<forall>i<length (concat (replicate pc ?row)).
                  concat (replicate pc ?row) ! i = Inr (wss ! i)"
      by simp_all
    from lw len have lw': "length wss = pc * lpp" by (simp add: length_concat_replicate)
    have "processStructureElements (temps ! l) (shouldLineRhyme (s + 1) pc) scheme
            = Inr (wss ! (s * lpp + l))" if s: "s < pc" and l: "l < lpp" for s l
    proof -
      from s l have i: "s * lpp + l < pc * lpp" by (rule stanza_index_bound)
      from l len have l': "l < length ?row" by simp
      from nth_concat_replicate [OF s l'] len
      have "concat (replicate pc ?row) ! (s * lpp + l) = ?row ! l" by simp
      also from l len have "\<dots> = processStructureElements (temps ! l) False scheme" by simp
      also have "\<dots> = processStructureElements (temps ! l) (shouldLineRhyme (s + 1) pc) scheme"
        by (rule processStructureElements_flag)
      finally have "concat (replicate pc ?row) ! (s * lpp + l)
          = processStructureElements (temps ! l) (shouldLineRhyme (s + 1) pc) scheme" .
      moreover from nth i len have "concat (replicate pc ?row) ! (s * lpp + l)
          = Inr (wss ! (s * lpp + l))"
        by (simp add: length_concat_replicate)
      ultimately show ?thesis by simp
    qed
    with sel Inr k len lw' show ?thesis by (intro exI [of _ temps]) simp
  qed
qed

text \<open>
  C1, amended: whenever \<open>generatePoetry\<close> returns (no selector throws), for either style,
  any counts and any rhyme options, \<open>lines\<close> has exactly
  \<open>paragraphCount * linesPerParagraph\<close> entries in stanza-major order: the entry at
  \<open>s * linesPerParagraph + l\<close> is the rendering by \<open>generateLine\<close> of the expansion of the
  base template selected for line \<open>l\<close>, for each stanza \<open>s\<close>; and it is non-empty whenever
  the punctuation of that template is not blank.
\<close>

theorem generatePoetry_lines:
  assumes "generatePoetry ds opts rs k = (Inr lines, k')"
  shows "length lines = paragraphCount opts * linesPerParagraph opts
    \<and> (\<exists>temps k1.
          selectTemplates (sentenceStructures ds) (linesPerParagraph opts) (style opts)
            (rhymeScheme opts) [1..<linesPerParagraph opts + 1] rs k = (Inr temps, k1)
        \<and> length temps = linesPerParagraph opts
        \<and> (\<forall>s<paragraphCount opts. \<forall>l<linesPerParagraph opts.
              \<exists>w ka kb.
                processStructureElements (temps ! l)
                  (shouldLineRhyme (s + 1) (paragraphCount opts)) (rhymeScheme opts) = Inr w
              \<and> generateLine ds w opts rs ka
                  = (Inr (lines ! (s * linesPerParagraph opts + l)), kb)
              \<and> (trim (wPunctuation w) \<noteq> []
                   \<longrightarrow> lines ! (s * linesPerParagraph opts + l) \<noteq> [])))"
proof -
  let ?pc = "paragraphCount opts" and ?lpp = "linesPerParagraph opts"
  obtain c k1 where cs:
    "createStructure ds ?pc ?lpp (style opts) (rhymeScheme opts) rs k = (c, k1)"
    by (cases "createStructure ds ?pc ?lpp (style opts) (rhymeScheme opts) rs k")
  from assms cs obtain wss where c: "c = Inr wss"
    by (cases c) (simp_all add: generatePoetry_def)
  with assms cs have gl: "generateLines ds opts rs wss k1 = (Inr lines, k')"
    by (simp add: generatePoetry_def)
  from createStructure_Inr [OF cs [unfolded c]]
  obtain temps where sel: "selectTemplates (sentenceStructures ds) ?lpp (style opts)
            (rhymeScheme opts) [1..<?lpp + 1] rs k = (Inr temps, k1)"
    and lt: "length temps = ?lpp" and lw: "length wss = ?pc * ?lpp"
    and ex: "\<forall>s<?pc. \<forall>l<?lpp.
                 processStructureElements (temps ! l) (shouldLineRhyme (s + 1) ?pc)
                   (rhymeScheme opts) = Inr (wss ! (s * ?lpp + l))"
    by (elim exE conjE)
  from generateLines_nth [OF gl]
  have ll: "length lines = length wss"
    and ln: "\<forall>i<length wss. \<exists>ka kb. generateLine ds (wss ! i) opts rs ka = (Inr (lines ! i), kb)"
    by simp_all
  have each: "\<exists>w ka kb.
                processStructureElements (temps ! l)
                  (shouldLineRhyme (s + 1) ?pc) (rhymeScheme opts) = Inr w
              \<and> generateLine ds w opts rs ka = (Inr (lines ! (s * ?lpp + l)), kb)
              \<and> (trim (wPunctuation w) \<noteq> [] \<longrightarrow> lines ! (s * ?lpp + l) \<noteq> [])"
    if s: "s < ?pc" and l: "l < ?lpp" for s l
  proof -
    let ?i = "s * ?lpp + l"
    from s l have "?i < ?pc * ?lpp" by (rule stanza_index_bound)
    with lw ln obtain ka kb where
      g: "generateLine ds (wss ! ?i) opts rs ka = (Inr (lines ! ?i), kb)"
      by auto
    from generateLine_Inr [OF g] obtain body where
      "lines ! ?i = trim (body @ wPunctuation (wss ! ?i))" by blast
    then have "trim (wPunctuation (wss ! ?i)) \<noteq> [] \<longrightarrow> lines ! ?i \<noteq> []"
      using line_nonempty by blast
    moreover from ex s l have "processStructureElements (temps ! l)
        (shouldLineRhyme (s + 1) ?pc) (rhymeScheme opts) = Inr (wss ! ?i)" by simp
    ultimately show ?thesis using g by (intro exI [of _ "wss ! ?i"] exI [of _ ka] exI [of _ kb]) simp
  qed
  from ll lw have "length lines = ?pc * ?lpp" by simp
  moreover have "\<exists>temps k1.
          selectTemplates (sentenceStructures ds) ?lpp (style opts)
            (rhymeScheme opts) [1..<?lpp + 1] rs k = (Inr temps, k1)
        \<and> length temps = ?lpp
        \<and> (\<forall>s<?pc. \<forall>l<?lpp.
              \<exists>w ka kb.
                processStructureElements (temps ! l)
                  (shouldLineRhyme (s + 1) ?pc) (rhymeScheme opts) = Inr w
              \<and> generateLine ds w opts rs ka = (Inr (lines ! (s * ?lpp + l)), kb)
              \<and> (trim (wPunctuation w) \<noteq> [] \<longrightarrow> lines ! (s * ?lpp + l) \<noteq> []))"
    using sel lt each by (intro exI [of _ temps] exI [of _ k1] conjI allI impI)
  ultimately show ?thesis by (rule conjI)
qed

lemma exTemplate_expanded:
  "processStructureElements (Some exTemplate) nr scheme = Inr exWorking"
  by (simp add: processStructureElements_Some exTemplate_def exWorking_def expandElement_def
      padTo30_def string_evals)

lemma exStructures:
  "createStructure exStore pc (Suc 0) Bold None (\<lambda>i. 0) 0 = (Inr (replicate pc exWorking), 1)"
proof -
  have c: "collect (replicate n (Inr x)) = Inr (replicate n x)" for n and x :: WorkingStructure
    by (induction n) simp_all
  have s: "selectBoldStructure [exTemplate] b None (\<lambda>i. 0) 0 = (Inr (Some exTemplate), 1)" for b
    by (simp add: selectBoldStructure_def selectBoldLoop.simps jsIndex_def randomIndex_def
        rhymeRejected_def truthy_def)
  show ?thesis
    by (simp add: createStructure_replicate [of _ _ _ _ _ _ _ False None] exStore_def s
        exTemplate_expanded c)
qed

text \<open>
  C1, as stated, fails: no noun of the example lexicon has a person property, so the
  \<open>MR\<close> slot of a template makes \<open>generatePoetry\<close> throw and no lines are returned; and on
  a table whose only template has no slot code and no punctuation, the one line returned is
  empty.
\<close>

theorem generatePoetry_returns_lines_counterexample:
  "generatePoetry (exStore\<lparr>sentenceStructures := [exPerson]\<rparr>)
     \<lparr>style = Bold, paragraphCount = 1, linesPerParagraph = 1, useRhyme = False,
      rhymeScheme = None\<rparr> (\<lambda>i. 0) 0
     = (Inl NoPersonNoun, 1)
   \<and> generatePoetry (exStore\<lparr>sentenceStructures := [exBlank]\<rparr>)
     \<lparr>style = Quiet, paragraphCount = 1, linesPerParagraph = 1, useRhyme = False,
      rhymeScheme = None\<rparr> (\<lambda>i. 0) 0
     = (Inr [[]], 1)"
proof -
  have sb: "selectBoldStructure [exPerson] b None (\<lambda>i. 0) 0 = (Inr (Some exPerson), 1)" for b
    by (simp add: selectBoldStructure_def selectBoldLoop.simps jsIndex_def randomIndex_def
        rhymeRejected_def truthy_def)
  have pp: "processStructureElements (Some exPerson) b None
      = Inr \<lparr>wCompoundStructureCount = 0, wPunctuation = [12290],
             wElements = js ''MR'' # replicate 29 []\<rparr>" for b
    by (simp add: processStructureElements_Some exPerson_def expandElement_def padTo30_def
        string_evals)
  have gp: "generateLine (exStore\<lparr>sentenceStructures := [exPerson]\<rparr>)
      \<lparr>wCompoundStructureCount = 0, wPunctuation = [12290],
       wElements = js ''MR'' # replicate 29 []\<rparr> opts (\<lambda>i. 0) k
      = (Inl NoPersonNoun, k)" for opts k
    by (simp add: generateLine_def generateLineLoop.simps exStore_def exNouns_def
        selectPersonNoun_def selector_evals tag_evals string_evals Let_def)
  have a: "generatePoetry (exStore\<lparr>sentenceStructures := [exPerson]\<rparr>)
     \<lparr>style = Bold, paragraphCount = 1, linesPerParagraph = 1, useRhyme = False,
      rhymeScheme = None\<rparr> (\<lambda>i. 0) 0
     = (Inl NoPersonNoun, 1)"
    by (simp add: generatePoetry_def createStructure_replicate [of _ _ _ _ _ _ _ False None]
        sb pp gp)
  have s: "selectQuietStructure [exBlank] b None (\<lambda>i. 0) 0 = (Inr (Some exBlank), 1)" for b
    by (simp add: selectQuietStructure_def selectQuietLoop.simps jsIndex_def randomIndex_def
        rhymeRejected_def truthy_def isQuiet_def exBlank_def)
  have p: "processStructureElements (Some exBlank) b None
      = Inr \<lparr>wCompoundStructureCount = 0, wPunctuation = [], wElements = replicate 30 []\<rparr>" for b
    by (simp add: processStructureElements_Some exBlank_def padTo30_def)
  have g: "generateLine ds
      \<lparr>wCompoundStructureCount = 0, wPunctuation = [], wElements = replicate 30 []\<rparr> opts rs k
      = (Inr [], k)" for ds opts rs k
    by (simp add: generateLine_def generateLineLoop.simps elementAt_def jsIndex_def trim_def)
  have b: "generatePoetry (exStore\<lparr>sentenceStructures := [exBlank]\<rparr>)
     \<lparr>style = Quiet, paragraphCount = 1, linesPerParagraph = 1, useRhyme = False,
      rhymeScheme = None\<rparr> (\<lambda>i. 0) 0
     = (Inr [[]], 1)"
    by (simp add: generatePoetry_def createStructure_replicate [of _ _ _ _ _ _ _ False None]
        s p g)
  from a b show ?thesis by (rule conjI)
qed

theorem generatePoetry_lines_witness:
  "generatePoetry exStore exOptions (\<lambda>i. 0) 0
     = (Inr [[33457, 30340, 36339, 33310, 12290], [33457, 30340, 36339, 33310, 12290]], 5)
   \<and> length [[33457, 30340, 36339, 33310, 12290], [33457, 30340, 36339, 33310, 12290 :: nat]]
       = paragraphCount exOptions * linesPerParagraph exOptions"
proof -
  have cs: "createStructure exStore (paragraphCount exOptions) (linesPerParagraph exOptions)
      (style exOptions) (rhymeScheme exOptions) (\<lambda>i. 0) 0 = (Inr [exWorking, exWorking], 1)"
    using exStructures [of 2] by (simp add: exOptions_def numeral_2_eq_2)
  have ev: "generatePoetry exStore exOptions (\<lambda>i. 0) 0
     = (Inr [[33457, 30340, 36339, 33310, 12290], [33457, 30340, 36339, 33310, 12290]], 5)"
    by (simp add: generatePoetry_def cs exWorking_line)
  from generatePoetry_lines [OF ev]
  have "length [[33457, 30340, 36339, 33310, 12290], [33457, 30340, 36339, 33310, 12290 :: nat]]
       = paragraphCount exOptions * linesPerParagraph exOptions"
    by (rule conjunct1)
  with ev show ?thesis by (rule conjI)
qed

end
